theory Spec2Isabelle
  imports Main "HOL-Library.Word" "HOL-Library.Monad_Syntax"
begin

section \<open>Data model (src/types.ts)\<close>

text \<open>
  The TypeScript interfaces of \<^verbatim>\<open>types.ts\<close> as records. Field names are the
  source's, except where two interfaces share a name or the name is taken in HOL
  (\<^verbatim>\<open>text\<close>, \<^verbatim>\<open>id\<close>): those carry a prefix.
\<close>

record ScriptLine =
  speaker :: string
  line_text :: string

record PodcastScript =
  title :: string
  topic :: string
  summary :: string
  digest :: string
  lines :: "ScriptLine list"

section \<open>Script chunker (src/utils/audioUtils.ts, chunkScript)\<close>

text \<open>
  \<^verbatim>\<open>lines.slice(i, j)\<close> for \<open>0 \<le> i \<le> j\<close>: the elements at positions \<open>i..j-1\<close>,
  both ends clamped to the length of the array.
\<close>

definition slice :: "'a list \<Rightarrow> nat \<Rightarrow> nat \<Rightarrow> 'a list" where
  "slice xs i j = take (j - i) (drop i xs)"

text \<open>
  The loop \<^verbatim>\<open>for (let i = 0; i < lines.length; i += linesPerChunk) chunks.push(...)\<close>.
  With \<^verbatim>\<open>linesPerChunk = 0\<close> and a non-empty script the source never leaves the loop;
  the model then has no result (\<open>None\<close>).
\<close>

partial_function (option) chunkLoop ::
  "PodcastScript \<Rightarrow> nat \<Rightarrow> nat \<Rightarrow> PodcastScript list \<Rightarrow> PodcastScript list option" where
  "chunkLoop scr linesPerChunk i chunks =
     (if i < length (lines scr)
      then chunkLoop scr linesPerChunk (i + linesPerChunk)
             (chunks @ [scr\<lparr>lines := slice (lines scr) i (i + linesPerChunk)\<rparr>])
      else Some chunks)"

declare chunkLoop.simps [code]

definition chunkScript :: "PodcastScript \<Rightarrow> nat \<Rightarrow> PodcastScript list option" where
  "chunkScript scr linesPerChunk = chunkLoop scr linesPerChunk 0 []"

section \<open>Audio segment codec (src/utils/audioUtils.ts)\<close>

type_synonym byte = "8 word"

text \<open>
  The \<^verbatim>\<open>DataView\<close> setters on a buffer of bytes. Each converts its argument to an
  unsigned integer of its width (modulo \<open>2 ^ 8\<close>, \<open>2 ^ 16\<close>, \<open>2 ^ 32\<close>) and stores its
  bytes little-endian (the source passes \<^verbatim>\<open>true\<close>), which \<open>le16\<close> and \<open>le32\<close> list; a
  write that does not fit in the buffer throws a RangeError, which is \<open>None\<close> here.
\<close>

definition le16 :: "int \<Rightarrow> byte list" where
  "le16 v = (let w = v mod 2 ^ 16
             in [word_of_int (w mod 256), word_of_int (w div 256 mod 256)])"

definition le32 :: "int \<Rightarrow> byte list" where
  "le32 v = (let w = v mod 2 ^ 32
             in [word_of_int (w mod 256), word_of_int (w div 256 mod 256),
                 word_of_int (w div 65536 mod 256), word_of_int (w div 16777216 mod 256)])"

definition setUint8 :: "byte list \<Rightarrow> nat \<Rightarrow> int \<Rightarrow> byte list option" where
  "setUint8 view byteOffset v =
     (if byteOffset + 1 \<le> length view
      then Some (take byteOffset view @ [word_of_int (v mod 2 ^ 8)] @ drop (byteOffset + 1) view)
      else None)"

definition setUint16 :: "byte list \<Rightarrow> nat \<Rightarrow> int \<Rightarrow> byte list option" where
  "setUint16 view byteOffset v =
     (if byteOffset + 2 \<le> length view
      then Some (take byteOffset view @ le16 v @ drop (byteOffset + 2) view)
      else None)"

definition setUint32 :: "byte list \<Rightarrow> nat \<Rightarrow> int \<Rightarrow> byte list option" where
  "setUint32 view byteOffset v =
     (if byteOffset + 4 \<le> length view
      then Some (take byteOffset view @ le32 v @ drop (byteOffset + 4) view)
      else None)"

text \<open>\<^verbatim>\<open>writeString\<close>: one \<^verbatim>\<open>setUint8\<close> per character code, at consecutive offsets.\<close>

fun writeString :: "byte list \<Rightarrow> nat \<Rightarrow> string \<Rightarrow> byte list option" where
  "writeString view offset [] = Some view"
| "writeString view offset (c # cs) =
     do { view' \<leftarrow> setUint8 view offset (of_char c); writeString view' (offset + 1) cs }"

text \<open>
  \<^verbatim>\<open>createWavBlob(pcmData, sampleRate)\<close>. The blob is the list of its bytes: the
  44-byte header (a zero-filled \<^verbatim>\<open>ArrayBuffer(44)\<close> written through the view) followed
  by \<^verbatim>\<open>pcmData\<close>. The sample rate is an integer here; \<^verbatim>\<open>(sampleRate * 1 * 16) / 8\<close>
  is then exact.
\<close>

definition createWavBlob :: "byte list \<Rightarrow> int \<Rightarrow> byte list option" where
  "createWavBlob pcmData sampleRate =
     (let numChannels = 1;
          bitsPerSample = 16;
          byteRate = (sampleRate * numChannels * bitsPerSample) div 8;
          blockAlign = (numChannels * bitsPerSample) div 8;
          dataSize = int (length pcmData);
          fileSize = 36 + dataSize
      in do {
        view \<leftarrow> Some (replicate 44 0);
        view \<leftarrow> writeString view 0 ''RIFF'';
        view \<leftarrow> setUint32 view 4 fileSize;
        view \<leftarrow> writeString view 8 ''WAVE'';
        view \<leftarrow> writeString view 12 ''fmt '';
        view \<leftarrow> setUint32 view 16 16;
        view \<leftarrow> setUint16 view 20 1;
        view \<leftarrow> setUint16 view 22 numChannels;
        view \<leftarrow> setUint32 view 24 sampleRate;
        view \<leftarrow> setUint32 view 28 byteRate;
        view \<leftarrow> setUint16 view 32 blockAlign;
        view \<leftarrow> setUint16 view 34 bitsPerSample;
        view \<leftarrow> writeString view 36 ''data'';
        view \<leftarrow> setUint32 view 40 dataSize;
        Some (view @ pcmData)
      })"

text \<open>
  \<^verbatim>\<open>mergeAudioSegments\<close>. The argument lists, in the order of \<^verbatim>\<open>segmentUrls\<close>, what
  fetching each URL yields: \<open>Some\<close> of the bytes of the response, or \<open>None\<close> when the
  fetch rejects (then \<^verbatim>\<open>Promise.all\<close> rejects and so does the merge).
\<close>

definition headerSize :: nat where
  "headerSize = 44"

text \<open>The callback of \<^verbatim>\<open>buffers.map\<close>: \<^verbatim>\<open>buffer.slice(headerSize)\<close> unless the buffer is too short.\<close>

definition pcmChunk :: "byte list \<Rightarrow> byte list" where
  "pcmChunk buffer = (if length buffer \<le> headerSize then [] else drop headerSize buffer)"

text \<open>
  \<^verbatim>\<open>mergedPcm.set(chunk, offset)\<close> copies \<^verbatim>\<open>chunk\<close> into the array at \<^verbatim>\<open>offset\<close> and
  throws a RangeError when it does not fit.
\<close>

definition typedArraySet :: "byte list \<Rightarrow> byte list \<Rightarrow> nat \<Rightarrow> byte list option" where
  "typedArraySet target source offset =
     (if offset + length source \<le> length target
      then Some (take offset target @ source @ drop (offset + length source) target)
      else None)"

fun copyChunks :: "byte list \<Rightarrow> nat \<Rightarrow> byte list list \<Rightarrow> byte list option" where
  "copyChunks mergedPcm offset [] = Some mergedPcm"
| "copyChunks mergedPcm offset (chunk # rest) =
     do { mergedPcm' \<leftarrow> typedArraySet mergedPcm chunk offset;
          copyChunks mergedPcm' (offset + length chunk) rest }"

definition mergeAudioSegments :: "byte list option list \<Rightarrow> byte list option" where
  "mergeAudioSegments fetched =
     do { buffers \<leftarrow> those fetched;
          let pcmChunks = map pcmChunk buffers;
          let totalLength = sum_list (map length pcmChunks);
          mergedPcm \<leftarrow> copyChunks (replicate totalLength 0) 0 pcmChunks;
          createWavBlob mergedPcm 24000 }"

text \<open>
  Reading a header field back, as \<^verbatim>\<open>DataView.getUint16\<close> and \<^verbatim>\<open>getUint32\<close> do with
  \<^verbatim>\<open>littleEndian = true\<close>.
\<close>

definition getUint16 :: "byte list \<Rightarrow> nat \<Rightarrow> int" where
  "getUint16 view byteOffset = uint (view ! byteOffset) + 256 * uint (view ! (byteOffset + 1))"

definition getUint32 :: "byte list \<Rightarrow> nat \<Rightarrow> int" where
  "getUint32 view byteOffset =
     uint (view ! byteOffset) + 256 * uint (view ! (byteOffset + 1))
     + 65536 * uint (view ! (byteOffset + 2)) + 16777216 * uint (view ! (byteOffset + 3))"

text \<open>The header that \<open>createWavBlob\<close> writes for \<open>N\<close> payload bytes at sample rate \<open>R\<close>.\<close>

definition wavHeader :: "nat \<Rightarrow> int \<Rightarrow> byte list" where
  "wavHeader N R =
     [0x52, 0x49, 0x46, 0x46] @ le32 (36 + int N) @ [0x57, 0x41, 0x56, 0x45]
     @ [0x66, 0x6D, 0x74, 0x20] @ le32 16 @ le16 1 @ le16 1 @ le32 R @ le32 (2 * R)
     @ le16 2 @ le16 16 @ [0x64, 0x61, 0x74, 0x61] @ le32 (int N)"

section \<open>Application state (src/types.ts)\<close>

record SourceFile =
  file_name :: string
  file_data :: string
  mimeType :: string

record PodcastEpisode =
  ep_id :: string
  ep_script :: PodcastScript
  ep_audioSegments :: "string list"
  ep_createdAt :: nat
  ep_category :: string
  ep_customImage :: "string option"

text \<open>\<^verbatim>\<open>NewsTopic\<close>; the optional \<^verbatim>\<open>icon\<close> (a React node) is left out.\<close>

record NewsTopic =
  topic_id :: string
  topic_name :: string
  topic_description :: "string option"
  rssUrls :: "string list"
  isCustom :: bool
  isLoading :: "bool option"
  color :: "string option"
  customImage :: "string option"

record UpcomingEvent =
  event_date :: string
  event_title :: string
  event_topic :: string
  event_description :: string

datatype GenerationStatus =
  Status_idle | Status_scripting | Status_synthesizing | Status_complete | Status_error

datatype AppView =
  View_custom | View_news | View_library | View_details | View_profile | View_events

record AppState =
  view :: AppView
  previousView :: "AppView option"
  inputText :: string
  sourceFile :: "SourceFile option"
  script :: "PodcastScript option"
  audioSegments :: "string list"
  isGeneratingAudio :: bool
  status :: GenerationStatus
  error :: "string option"
  notification :: "string option"
  currentEpisodeId :: "string option"
  activeCategory :: "string option"
  customCoverUrl :: "string option"
  library :: "PodcastEpisode list"
  topics :: "NewsTopic list"
  upcomingEvents :: "UpcomingEvent list"
  isEventsLoading :: bool

text \<open>
  What a \<^verbatim>\<open>catch\<close> clause receives: an \<^verbatim>\<open>Error\<close> object with its message, another
  truthy value, or a falsy value (\<^verbatim>\<open>undefined\<close>, \<^verbatim>\<open>null\<close>, \<^verbatim>\<open>false\<close>, \<^verbatim>\<open>0\<close>, \<^verbatim>\<open>NaN\<close>,
  \<^verbatim>\<open>""\<close>). Every object is truthy.
\<close>

datatype thrown = Error string | NonError | Falsy

fun thrown_truthy :: "thrown \<Rightarrow> bool" where
  "thrown_truthy (Error message) = True"
| "thrown_truthy NonError = True"
| "thrown_truthy Falsy = False"

text \<open>JavaScript truthiness of an optional string: \<^verbatim>\<open>undefined\<close> and \<^verbatim>\<open>""\<close> are falsy.\<close>

definition truthy :: "string option \<Rightarrow> bool" where
  "truthy v = (case v of None \<Rightarrow> False | Some s \<Rightarrow> s \<noteq> [])"

section \<open>Audio synthesis with retries (services/gemini, generateAudio)\<close>

text \<open>
  One iteration of the retry loop runs a \<^verbatim>\<open>try\<close> block (the remote call, the check for
  missing audio data, base64 decoding, \<^verbatim>\<open>createWavBlob(pcmData, 24000)\<close>,
  \<^verbatim>\<open>URL.createObjectURL\<close>) whose every exception reaches the same \<^verbatim>\<open>catch\<close>. The
  parameter \<open>tts\<close> gives the outcome of that block at each attempt: the URL it returns,
  or what it throws. The function returns the result of \<^verbatim>\<open>generateAudio\<close> together with
  what it did, in order: the attempts made and the delays waited (in milliseconds).
  \<open>lastError\<close> is \<open>None\<close> while the variable is still \<^verbatim>\<open>undefined\<close>; after the loop,
  \<^verbatim>\<open>throw lastError || new Error(...)\<close> throws \<open>lastError\<close> when it is truthy and the new
  error otherwise.
\<close>

datatype audio_step = Attempt nat | Delay nat

definition maxRetries :: nat where
  "maxRetries = 3"

function generateAudioLoop ::
  "(nat \<Rightarrow> thrown + string) \<Rightarrow> nat \<Rightarrow> thrown option \<Rightarrow> audio_step list
   \<Rightarrow> (thrown + string) \<times> audio_step list" where
  "generateAudioLoop tts attempt lastError steps =
     (if attempt \<le> maxRetries
      then (case tts attempt of
              Inr url \<Rightarrow> (Inr url, steps @ [Attempt attempt])
            | Inl e \<Rightarrow>
                if attempt < maxRetries
                then generateAudioLoop tts (attempt + 1) (Some e)
                       (steps @ [Attempt attempt, Delay (1000 * 2 ^ attempt)])
                else generateAudioLoop tts (attempt + 1) (Some e) (steps @ [Attempt attempt]))
      else (Inl (case lastError of
                   Some e \<Rightarrow> if thrown_truthy e then e
                             else Error ''Failed to generate audio after retries''
                 | None \<Rightarrow> Error ''Failed to generate audio after retries''), steps))"
  by pat_completeness auto
termination
  by (relation "measure (\<lambda>(tts, attempt, lastError, steps). Suc maxRetries - attempt)") auto

declare generateAudioLoop.simps [simp del]

definition generateAudio ::
  "(nat \<Rightarrow> thrown + string) \<Rightarrow> (thrown + string) \<times> audio_step list" where
  "generateAudio tts = generateAudioLoop tts 0 None []"

section \<open>Cover image generation (services/gemini, generateCoverImage)\<close>

text \<open>
  The argument is the outcome of the remote call: what it throws, or the parts of the
  first candidate (\<^verbatim>\<open>[]\<close> when there is none), each with the data of its
  \<^verbatim>\<open>inlineData\<close> if it has one. Every exception, the source's own "No image data
  found" included, is caught and turned into the empty string.
\<close>

definition generateCoverImage :: "thrown + string option list \<Rightarrow> thrown + string" where
  "generateCoverImage response =
     (case response of
        Inl e \<Rightarrow> Inr ''''
      | Inr parts \<Rightarrow>
          (case List.map_filter (\<lambda>part. part) parts of
             d # _ \<Rightarrow> Inr (''data:image/png;base64,'' @ d)
           | [] \<Rightarrow> Inr ''''))"

section \<open>Generation session controller (App, handleGenerationFlow)\<close>

text \<open>
  \<^verbatim>\<open>handleGenerationFlow\<close> is an async function: each call runs until its next
  \<^verbatim>\<open>await\<close>, and resumes when the awaited promise settles. A \<open>Flow\<close> is one call of
  it: its parameters and local variables, the \<^verbatim>\<open>await\<close> at which its body is suspended
  (\<open>pc\<close>), and the state of the async function behind \<^verbatim>\<open>imageGenPromise\<close>, which runs
  beside it (\<open>imageGen\<close>). Flows are keyed by their \<^verbatim>\<open>currentGenId\<close>.
\<close>

datatype flow_pc =
  At_generateScript | At_firstAudio | At_chunkAudio | At_imageGenPromise | Returned

datatype image_pc =
  Image_unstarted | At_generateCoverImage | Image_resolved

record Flow =
  category :: string
  shouldGenerateImage :: bool
  finalCoverUrl :: "string option"
  flow_script :: "PodcastScript option"
  scriptChunks :: "PodcastScript list"
  audioUrls :: "string list"
  loop_i :: nat
  pc :: flow_pc
  imageGen :: image_pc

text \<open>
  The history of a run, oldest entry first: the remote calls issued (by flow, and for
  audio by chunk index), the resolutions a flow has resumed from, and the calls of
  \<^verbatim>\<open>addToLibrary\<close>. Nothing reads it; it only records.
\<close>

datatype action =
    Request_script nat
  | Request_audio nat nat
  | Request_image nat
  | Settled_script nat
  | Settled_audio nat nat
  | Settled_image nat
  | Commit nat

record Controller =
  state :: AppState
  generationIdRef :: nat
  flows :: "nat \<rightharpoonup> Flow"
  trace :: "action list"

text \<open>
  What can happen to the controller: the two handlers are called, a pending remote call
  of flow \<open>g\<close> settles (\<open>Inl\<close>: it rejects), or the \<^verbatim>\<open>await imageGenPromise\<close> of flow
  \<open>g\<close> resumes (the event carries the \<^verbatim>\<open>crypto.randomUUID()\<close> and the date that
  \<^verbatim>\<open>addToLibrary\<close> would read). Of the parameters of \<^verbatim>\<open>handleGenerationFlow\<close>, \<open>Start\<close>
  keeps \<^verbatim>\<open>category\<close>, \<^verbatim>\<open>customImage\<close> and \<^verbatim>\<open>shouldGenerateImage\<close>; the others only
  go into the script request.
\<close>

datatype event =
    Start string "string option" bool
  | Stop
  | Script_settled nat "thrown + PodcastScript"
  | Audio_settled nat "thrown + string"
  | Image_settled nat "thrown + string"
  | Image_joined nat string nat

definition addToLibrary ::
  "string \<Rightarrow> nat \<Rightarrow> PodcastScript \<Rightarrow> string list \<Rightarrow> string \<Rightarrow> string option
   \<Rightarrow> AppState \<Rightarrow> AppState" where
  "addToLibrary uuid now script' audioSegments' category' customImage' prev =
     (let newEpisode = \<lparr>ep_id = uuid, ep_script = script', ep_audioSegments = audioSegments',
                         ep_createdAt = now, ep_category = category',
                         ep_customImage = customImage'\<rparr>
      in prev\<lparr>library := newEpisode # library prev,
              currentEpisodeId := Some (ep_id newEpisode),
              activeCategory := Some category',
              customCoverUrl := customImage',
              notification := Some ''Episode saved to Library''\<rparr>)"

definition handleStopGeneration :: "Controller \<Rightarrow> Controller" where
  "handleStopGeneration c =
     c\<lparr>generationIdRef := generationIdRef c + 1,
       state := (state c)\<lparr>status := Status_idle, isGeneratingAudio := False, error := None\<rparr>\<rparr>"

text \<open>\<^verbatim>\<open>handleGenerationFlow\<close> from its call to \<^verbatim>\<open>await generateScript(...)\<close>.\<close>

definition startFlow :: "string \<Rightarrow> string option \<Rightarrow> bool \<Rightarrow> Controller \<Rightarrow> Controller" where
  "startFlow category' customImage' shouldGenerateImage' c =
     (let currentGenId = generationIdRef c + 1
      in c\<lparr>generationIdRef := currentGenId,
           state := (state c)\<lparr>status := Status_scripting, error := None, audioSegments := [],
                              script := None, currentEpisodeId := None,
                              activeCategory := Some category',
                              customCoverUrl := customImage',
                              isGeneratingAudio := False\<rparr>,
           flows := (flows c)(currentGenId \<mapsto>
                      \<lparr>category = category', shouldGenerateImage = shouldGenerateImage',
                       finalCoverUrl = customImage', flow_script = None, scriptChunks = [],
                       audioUrls = [], loop_i = 0, pc = At_generateScript,
                       imageGen = Image_unstarted\<rparr>),
           trace := trace c @ [Request_script currentGenId]\<rparr>)"

text \<open>
  The head of \<^verbatim>\<open>for (let i = 1; i < scriptChunks.length; i++)\<close> in the background
  function, entered with \<open>loop_i\<close> set: the next chunk is requested, or the loop is left
  (its condition fails, or the \<^verbatim>\<open>break\<close> on a stale id) for \<^verbatim>\<open>await imageGenPromise\<close>.
\<close>

definition backgroundLoop :: "nat \<Rightarrow> Flow \<Rightarrow> Controller \<Rightarrow> Controller" where
  "backgroundLoop currentGenId f c =
     (if loop_i f < length (scriptChunks f)
      then if generationIdRef c \<noteq> currentGenId
           then c\<lparr>flows := (flows c)(currentGenId \<mapsto> f\<lparr>pc := At_imageGenPromise\<rparr>)\<rparr>
           else c\<lparr>flows := (flows c)(currentGenId \<mapsto> f\<lparr>pc := At_chunkAudio\<rparr>),
                  trace := trace c @ [Request_audio currentGenId (loop_i f)]\<rparr>
      else c\<lparr>flows := (flows c)(currentGenId \<mapsto> f\<lparr>pc := At_imageGenPromise\<rparr>)\<rparr>)"

text \<open>
  Resuming from \<^verbatim>\<open>await generateScript\<close>, up to the next \<^verbatim>\<open>await\<close>. A rejection goes
  to the outer \<^verbatim>\<open>catch\<close>. \<open>chunkScript\<close> with chunk size 6 always returns; were it not
  to, the flow would never get further.
\<close>

definition afterScript ::
  "nat \<Rightarrow> Flow \<Rightarrow> thrown + PodcastScript \<Rightarrow> Controller \<Rightarrow> Controller" where
  "afterScript currentGenId f r c0 =
     (let c = c0\<lparr>trace := trace c0 @ [Settled_script currentGenId]\<rparr>
      in case r of
        Inl e \<Rightarrow>
          (if generationIdRef c = currentGenId
           then c\<lparr>state := (state c)\<lparr>status := Status_error, isGeneratingAudio := False,
                      error := Some (case e of Error message \<Rightarrow> message
                                     | _ \<Rightarrow> ''An unexpected error occurred.'')\<rparr>,
                  flows := (flows c)(currentGenId \<mapsto> f\<lparr>pc := Returned\<rparr>)\<rparr>
           else c\<lparr>flows := (flows c)(currentGenId \<mapsto> f\<lparr>pc := Returned\<rparr>)\<rparr>)
      | Inr script' \<Rightarrow>
          (if generationIdRef c \<noteq> currentGenId
           then c\<lparr>flows := (flows c)(currentGenId \<mapsto> f\<lparr>pc := Returned\<rparr>)\<rparr>
           else
             (let startsImage = (shouldGenerateImage f \<and> \<not> truthy (finalCoverUrl f));
                  c1 = c\<lparr>trace := (if startsImage then trace c @ [Request_image currentGenId]
                                     else trace c),
                         state := (state c)\<lparr>script := Some script',
                                    status := Status_synthesizing,
                                    isGeneratingAudio := True\<rparr>\<rparr>
              in case chunkScript script' 6 of
                   None \<Rightarrow> c1
                 | Some chunks \<Rightarrow>
                     (let f1 = f\<lparr>flow_script := Some script', scriptChunks := chunks,
                                 audioUrls := [],
                                 imageGen := (if startsImage then At_generateCoverImage
                                              else Image_resolved)\<rparr>
                      in if length chunks > 0
                         then c1\<lparr>flows := (flows c1)(currentGenId \<mapsto> f1\<lparr>pc := At_firstAudio\<rparr>),
                                 trace := trace c1 @ [Request_audio currentGenId 0]\<rparr>
                         else backgroundLoop currentGenId (f1\<lparr>loop_i := 1\<rparr>) c1))))"

text \<open>
  Resuming from \<^verbatim>\<open>await generateAudio(scriptChunks[0])\<close>. The \<^verbatim>\<open>catch\<close> of this
  \<^verbatim>\<open>try\<close> writes the error state and returns; it does not look at the generation id.
\<close>

definition afterFirstAudio ::
  "nat \<Rightarrow> Flow \<Rightarrow> thrown + string \<Rightarrow> Controller \<Rightarrow> Controller" where
  "afterFirstAudio currentGenId f r c0 =
     (let c = c0\<lparr>trace := trace c0 @ [Settled_audio currentGenId 0]\<rparr>
      in case r of
        Inr firstAudio \<Rightarrow>
          (if generationIdRef c \<noteq> currentGenId
           then c\<lparr>flows := (flows c)(currentGenId \<mapsto> f\<lparr>pc := Returned\<rparr>)\<rparr>
           else
             (let f1 = f\<lparr>audioUrls := audioUrls f @ [firstAudio]\<rparr>;
                  c1 = c\<lparr>state := (state c)\<lparr>audioSegments := audioUrls f1\<rparr>\<rparr>
              in backgroundLoop currentGenId (f1\<lparr>loop_i := 1\<rparr>) c1))
      | Inl e \<Rightarrow>
          c\<lparr>state := (state c)\<lparr>isGeneratingAudio := False, status := Status_error,
                         error := Some ''Failed to generate audio.''\<rparr>,
            flows := (flows c)(currentGenId \<mapsto> f\<lparr>pc := Returned\<rparr>)\<rparr>)"

text \<open>Resuming from \<^verbatim>\<open>await generateAudio(scriptChunks[i])\<close> in the background loop.\<close>

definition afterChunkAudio ::
  "nat \<Rightarrow> Flow \<Rightarrow> thrown + string \<Rightarrow> Controller \<Rightarrow> Controller" where
  "afterChunkAudio currentGenId f r c0 =
     (let c = c0\<lparr>trace := trace c0 @ [Settled_audio currentGenId (loop_i f)]\<rparr>
      in case r of
        Inr audio \<Rightarrow>
          (if generationIdRef c \<noteq> currentGenId
           then c\<lparr>flows := (flows c)(currentGenId \<mapsto> f\<lparr>pc := At_imageGenPromise\<rparr>)\<rparr>
           else
             (let f1 = f\<lparr>audioUrls := audioUrls f @ [audio]\<rparr>;
                  c1 = c\<lparr>state := (state c)\<lparr>audioSegments := audioSegments (state c) @ [audio]\<rparr>\<rparr>
              in backgroundLoop currentGenId (f1\<lparr>loop_i := loop_i f1 + 1\<rparr>) c1))
      | Inl e \<Rightarrow> backgroundLoop currentGenId (f\<lparr>loop_i := loop_i f + 1\<rparr>) c)"

text \<open>Resuming from \<^verbatim>\<open>await generateCoverImage(script.topic)\<close> inside \<^verbatim>\<open>imageGenPromise\<close>.\<close>

definition afterCoverImage ::
  "nat \<Rightarrow> Flow \<Rightarrow> thrown + string \<Rightarrow> Controller \<Rightarrow> Controller" where
  "afterCoverImage currentGenId f r c0 =
     (let c = c0\<lparr>trace := trace c0 @ [Settled_image currentGenId]\<rparr>
      in case r of
        Inr generatedUrl \<Rightarrow>
          (if generationIdRef c = currentGenId \<and> generatedUrl \<noteq> []
           then c\<lparr>state := (state c)\<lparr>customCoverUrl := Some generatedUrl\<rparr>,
                  flows := (flows c)(currentGenId \<mapsto>
                             f\<lparr>finalCoverUrl := Some generatedUrl, imageGen := Image_resolved\<rparr>)\<rparr>
           else c\<lparr>flows := (flows c)(currentGenId \<mapsto> f\<lparr>imageGen := Image_resolved\<rparr>)\<rparr>)
      | Inl imgError \<Rightarrow>
          c\<lparr>flows := (flows c)(currentGenId \<mapsto> f\<lparr>imageGen := Image_resolved\<rparr>)\<rparr>)"

text \<open>Resuming from \<^verbatim>\<open>await imageGenPromise\<close>: the commit.\<close>

definition afterImageGenPromise ::
  "nat \<Rightarrow> string \<Rightarrow> nat \<Rightarrow> Flow \<Rightarrow> Controller \<Rightarrow> Controller" where
  "afterImageGenPromise currentGenId uuid now f c =
     (case flow_script f of
        None \<Rightarrow> c
      | Some script' \<Rightarrow>
          (if generationIdRef c = currentGenId
           then c\<lparr>state := addToLibrary uuid now script' (audioUrls f) (category f)
                              (finalCoverUrl f)
                              ((state c)\<lparr>isGeneratingAudio := False, status := Status_complete\<rparr>),
                  flows := (flows c)(currentGenId \<mapsto> f\<lparr>pc := Returned\<rparr>),
                  trace := trace c @ [Commit currentGenId]\<rparr>
           else c\<lparr>flows := (flows c)(currentGenId \<mapsto> f\<lparr>pc := Returned\<rparr>)\<rparr>))"

text \<open>
  One event. A settlement is taken by the flow it belongs to if that flow is suspended
  at the matching \<^verbatim>\<open>await\<close>; the join needs \<^verbatim>\<open>imageGenPromise\<close> resolved. An event
  that matches nothing changes nothing.
\<close>

fun step :: "Controller \<Rightarrow> event \<Rightarrow> Controller" where
  "step c (Start category' customImage' shouldGenerateImage') =
     startFlow category' customImage' shouldGenerateImage' c"
| "step c Stop = handleStopGeneration c"
| "step c (Script_settled g r) =
     (case flows c g of
        Some f \<Rightarrow> if pc f = At_generateScript then afterScript g f r c else c
      | None \<Rightarrow> c)"
| "step c (Audio_settled g r) =
     (case flows c g of
        Some f \<Rightarrow> if pc f = At_firstAudio then afterFirstAudio g f r c
                  else if pc f = At_chunkAudio then afterChunkAudio g f r c
                  else c
      | None \<Rightarrow> c)"
| "step c (Image_settled g r) =
     (case flows c g of
        Some f \<Rightarrow> if imageGen f = At_generateCoverImage then afterCoverImage g f r c else c
      | None \<Rightarrow> c)"
| "step c (Image_joined g uuid now) =
     (case flows c g of
        Some f \<Rightarrow> if pc f = At_imageGenPromise \<and> imageGen f = Image_resolved
                  then afterImageGenPromise g uuid now f c else c
      | None \<Rightarrow> c)"

definition run :: "Controller \<Rightarrow> event list \<Rightarrow> Controller" where
  "run c es = foldl step c es"

text \<open>The controller when the component mounts, over a given initial store.\<close>

definition initController :: "AppState \<Rightarrow> Controller" where
  "initController s0 = \<lparr>state = s0, generationIdRef = 0, flows = Map.empty, trace = []\<rparr>"

section \<open>Topic registry (App, handleAddTopic)\<close>

text \<open>
  \<^verbatim>\<open>handleAddTopic\<close> up to its \<^verbatim>\<open>setState\<close>: the new topic is appended at once. The
  id is the \<^verbatim>\<open>crypto.randomUUID()\<close> the call draws; \<^verbatim>\<open>color || 'slate'\<close> falls back on
  a missing or empty colour.
\<close>

definition handleAddTopic_insert ::
  "string \<Rightarrow> string \<Rightarrow> string \<Rightarrow> string option \<Rightarrow> AppState \<Rightarrow> AppState" where
  "handleAddTopic_insert newTopicId name description color' prev =
     (let newTopic = \<lparr>topic_id = newTopicId, topic_name = name,
                       topic_description = Some description, rssUrls = [],
                       isCustom = True, isLoading = Some True,
                       color = Some (case color' of
                                       None \<Rightarrow> ''slate''
                                     | Some c \<Rightarrow> if c = [] then ''slate'' else c),
                       customImage = None\<rparr>
      in prev\<lparr>topics := topics prev @ [newTopic]\<rparr>)"

text \<open>
  The first of the two tasks, \<^verbatim>\<open>discoverRssFeeds(description).then(candidates =>
  getValidFeeds(candidates, 3))\<close>. \<open>response\<close> is how the model call settles, with the
  \<^verbatim>\<open>text\<close> of the response (possibly undefined) when it fulfils; \<open>parse\<close> stands for
  \<^verbatim>\<open>JSON.parse\<close>, whose value is taken to be a list of strings, \<open>None\<close> when it throws;
  \<open>validate\<close> stands for \<^verbatim>\<open>getValidFeeds(candidates, 3)\<close>, which catches every failure
  of a fetch. A rejected call and a response without text reject the task.
\<close>

definition discoverRssFeeds ::
  "thrown + string option \<Rightarrow> (string \<Rightarrow> string list option) \<Rightarrow> thrown + string list" where
  "discoverRssFeeds response parse =
     (case response of
        Inl e \<Rightarrow> Inl e
      | Inr text \<Rightarrow>
          (case text of
             None \<Rightarrow> Inl (Error ''Failed to discover RSS feeds'')
           | Some t \<Rightarrow>
               if t = [] then Inl (Error ''Failed to discover RSS feeds'')
               else (case parse t of Some urls \<Rightarrow> Inr urls | None \<Rightarrow> Inr [])))"

definition rssPromise ::
  "thrown + string option \<Rightarrow> (string \<Rightarrow> string list option)
   \<Rightarrow> (string list \<Rightarrow> string list) \<Rightarrow> thrown + string list" where
  "rssPromise response parse validate =
     (case discoverRssFeeds response parse of
        Inl e \<Rightarrow> Inl e
      | Inr candidates \<Rightarrow> Inr (validate candidates))"

text \<open>
  The two handlers on \<^verbatim>\<open>Promise.all([rssPromise, imagePromise])\<close>. \<open>rssResult\<close> is how
  \<^verbatim>\<open>discoverRssFeeds(description).then(candidates => getValidFeeds(candidates, 3))\<close>
  settles, \<open>imageResult\<close> how \<^verbatim>\<open>generateCoverImage(description)\<close> does.
  \<^verbatim>\<open>Promise.all\<close> fulfils when both do, and then \<^verbatim>\<open>then\<close> writes feeds, image and the
  flag; it rejects when one rejects, and then \<^verbatim>\<open>catch\<close> writes the flag alone.
\<close>

definition handleAddTopic_settled ::
  "string \<Rightarrow> thrown + string list \<Rightarrow> thrown + string \<Rightarrow> AppState \<Rightarrow> AppState" where
  "handleAddTopic_settled newTopicId rssResult imageResult prev =
     (case (rssResult, imageResult) of
        (Inr validUrls, Inr generatedImage) \<Rightarrow>
          prev\<lparr>topics := map (\<lambda>t. if topic_id t = newTopicId
                                   then t\<lparr>rssUrls := validUrls,
                                          customImage := Some generatedImage,
                                          isLoading := Some False\<rparr>
                                   else t) (topics prev)\<rparr>
      | _ \<Rightarrow>
          prev\<lparr>topics := map (\<lambda>t. if topic_id t = newTopicId
                                   then t\<lparr>isLoading := Some False\<rparr>
                                   else t) (topics prev)\<rparr>)"

section \<open>The initial store (App, useState; utils/rssUtils, DEFAULT\_TOPICS)\<close>

definition DEFAULT_TOPICS :: "NewsTopic list" where
  "DEFAULT_TOPICS =
     [\<lparr>topic_id = ''finance'', topic_name = ''Finance'', topic_description = None,
       rssUrls = [''https://finance.yahoo.com/news/rssindex'',
                  ''https://www.investing.com/rss/news.rss'',
                  ''https://feeds.content.dowjones.io/public/rss/mw_topstories''],
       isCustom = False, isLoading = None, color = Some ''emerald'', customImage = None\<rparr>,
      \<lparr>topic_id = ''medicine'', topic_name = ''Medicine'', topic_description = None,
       rssUrls = [''https://www.sciencedaily.com/rss/health_medicine.xml'',
                  ''https://www.medpagetoday.com/rss/headlines.xml''],
       isCustom = False, isLoading = None, color = Some ''rose'', customImage = None\<rparr>,
      \<lparr>topic_id = ''space'', topic_name = ''Space'', topic_description = None,
       rssUrls = [''https://spacenews.com/feed/'', ''https://www.space.com/feeds/all''],
       isCustom = False, isLoading = None, color = Some ''indigo'', customImage = None\<rparr>,
      \<lparr>topic_id = ''science'', topic_name = ''Sciences'', topic_description = None,
       rssUrls = [''https://www.sciencedaily.com/rss/all.xml'',
                  ''https://www.wired.com/feed/category/science/latest/rss'',
                  ''https://rss.nytimes.com/services/xml/rss/nyt/Science.xml''],
       isCustom = False, isLoading = None, color = Some ''amber'', customImage = None\<rparr>,
      \<lparr>topic_id = ''politics'', topic_name = ''Politics'', topic_description = None,
       rssUrls = [''http://rss.cnn.com/rss/cnn_allpolitics.rss'',
                  ''https://feeds.npr.org/1014/rss.xml'',
                  ''https://www.diplomatie.gouv.fr/spip.php?page=backend-fd&lang=en''],
       isCustom = False, isLoading = None, color = Some ''red'', customImage = None\<rparr>,
      \<lparr>topic_id = ''sports'', topic_name = ''Sports'', topic_description = None,
       rssUrls = [''https://www.espn.com/espn/rss/news'', ''https://sports.yahoo.com/rss/'',
                  ''http://feeds.bbci.co.uk/sport/rss.xml''],
       isCustom = False, isLoading = None, color = Some ''blue'', customImage = None\<rparr>]"

definition initialState :: AppState where
  "initialState =
     \<lparr>view = View_news, previousView = None, inputText = '''', sourceFile = None,
      script = None, audioSegments = [], isGeneratingAudio = False, status = Status_idle,
      error = None, notification = None, currentEpisodeId = None,
      activeCategory = Some ''custom'', customCoverUrl = None, library = [],
      topics = DEFAULT_TOPICS, upcomingEvents = [], isEventsLoading = False\<rparr>"

section \<open>Notions used in the statements, and example inputs\<close>

text \<open>The \<open>j\<close>-th chunk of a script for chunk size \<open>K\<close>.\<close>

definition nth_chunk :: "PodcastScript \<Rightarrow> nat \<Rightarrow> nat \<Rightarrow> PodcastScript" where
  "nth_chunk scr K j = scr\<lparr>lines := take K (drop (j * K) (lines scr))\<rparr>"

text \<open>
  What \<open>generateAudio\<close> does when every attempt fails: four attempts, with waits of
  1 s, 2 s and 4 s between them.
\<close>

definition retrySchedule :: "audio_step list" where
  "retrySchedule = [Attempt 0, Delay 1000, Attempt 1, Delay 2000, Attempt 2, Delay 4000, Attempt 3]"

fun is_attempt :: "audio_step \<Rightarrow> bool" where
  "is_attempt (Attempt k) = True"
| "is_attempt (Delay ms) = False"

definition demo_script3 :: PodcastScript where
  "demo_script3 = \<lparr>title = ''Orbit'', topic = ''space'', summary = ''A launch.'',
     digest = ''# Launch'',
     lines = [\<lparr>speaker = ''Alex'', line_text = ''Welcome.''\<rparr>,
              \<lparr>speaker = ''Jamie'', line_text = ''Glad to be here.''\<rparr>,
              \<lparr>speaker = ''Alex'', line_text = ''Let us start.''\<rparr>]\<rparr>"

text \<open>Scripts of 9 and 13 equal lines (2 and 3 chunks of at most 6), and one without lines.\<close>

definition demo_line :: ScriptLine where
  "demo_line = \<lparr>speaker = ''Alex'', line_text = ''Hello.''\<rparr>"

definition demo_script :: "nat \<Rightarrow> PodcastScript" where
  "demo_script n = \<lparr>title = ''Orbit'', topic = ''space'', summary = ''A launch.'',
     digest = ''# Launch'', lines = replicate n demo_line\<rparr>"

text \<open>Two fetched segments: 44 header bytes each, then 2 and 1 payload bytes.\<close>

definition demo_segments :: "byte list list" where
  "demo_segments = [replicate 44 0 @ [1, 2], replicate 44 0 @ [3]]"

text \<open>A fetched segment with \<open>2 ^ 32\<close> payload bytes after its 44 header bytes.\<close>

definition big_segment :: "byte list" where
  "big_segment = replicate (44 + 2 ^ 32) 0"

text \<open>
  Three services: one whose third attempt succeeds, one that fails every time (the last
  failure with a message of its own), and one whose every attempt throws \<^verbatim>\<open>undefined\<close>.
\<close>

definition flaky_tts :: "nat \<Rightarrow> thrown + string" where
  "flaky_tts k = (if k < 2 then Inl (Error ''503'') else Inr ''blob:audio'')"

definition dead_tts :: "nat \<Rightarrow> thrown + string" where
  "dead_tts k = Inl (Error (if k = 3 then ''last failure'' else ''earlier failure''))"

definition mute_tts :: "nat \<Rightarrow> thrown + string" where
  "mute_tts k = Inl Falsy"

section \<open>Notions used in the statements about the controller\<close>

subsection \<open>Invariants of the reachable controllers\<close>

text \<open>The generation an entry of the history belongs to.\<close>

fun action_flow :: "action \<Rightarrow> nat" where
  "action_flow (Request_script g) = g"
| "action_flow (Request_audio g j) = g"
| "action_flow (Request_image g) = g"
| "action_flow (Settled_script g) = g"
| "action_flow (Settled_audio g j) = g"
| "action_flow (Settled_image g) = g"
| "action_flow (Commit g) = g"

text \<open>No invocation and no entry of the history is ahead of \<open>generationIdRef\<close>.\<close>

definition bounded :: "Controller \<Rightarrow> bool" where
  "bounded c \<longleftrightarrow> (\<forall>a \<in> set (trace c). action_flow a \<le> generationIdRef c)
               \<and> (\<forall>g f. flows c g = Some f \<longrightarrow> g \<le> generationIdRef c)"

text \<open>An invocation that has not returned has not called \<open>addToLibrary\<close>.\<close>

definition commit_inv :: "Controller \<Rightarrow> bool" where
  "commit_inv c \<longleftrightarrow>
     (\<forall>g f. flows c g = Some f \<and> pc f \<noteq> Returned \<longrightarrow> Commit g \<notin> set (trace c))"

text \<open>
  The cover image of an invocation: not requested before the script is there, and
  resolved only through a settlement that the history shows.
\<close>

definition image_inv :: "Controller \<Rightarrow> bool" where
  "image_inv c \<longleftrightarrow>
     (\<forall>g f. flows c g = Some f \<longrightarrow>
        (pc f = At_generateScript \<longrightarrow> imageGen f = Image_unstarted)
      \<and> (imageGen f = Image_unstarted \<longrightarrow> Request_image g \<notin> set (trace c))
      \<and> (imageGen f = Image_resolved \<and> Request_image g \<in> set (trace c) \<longrightarrow>
           Settled_image g \<in> set (trace c)))"

text \<open>
  Inside the background loop every chunk before \<open>loop_i\<close> has settled; at the join with
  the image, in the current generation, every chunk has.
\<close>

definition audio_inv :: "Controller \<Rightarrow> bool" where
  "audio_inv c \<longleftrightarrow>
     (\<forall>g f. flows c g = Some f \<longrightarrow>
        (pc f = At_chunkAudio \<longrightarrow>
           loop_i f < length (scriptChunks f)
           \<and> (\<forall>j < loop_i f. Settled_audio g j \<in> set (trace c)))
      \<and> (pc f = At_imageGenPromise \<and> g = generationIdRef c \<longrightarrow>
           (\<forall>j < length (scriptChunks f). Settled_audio g j \<in> set (trace c))))"

text \<open>Past the script, the current invocation's script is the one in the store.\<close>

definition script_inv :: "Controller \<Rightarrow> bool" where
  "script_inv c \<longleftrightarrow>
     (\<forall>g f. flows c g = Some f \<and> g = generationIdRef c
            \<and> pc f \<in> {At_firstAudio, At_chunkAudio, At_imageGenPromise} \<longrightarrow>
        flow_script f \<noteq> None \<and> script (state c) = flow_script f)"

text \<open>Before the first chunk has settled, no audio other than chunk 0 was requested.\<close>

definition request_inv :: "Controller \<Rightarrow> bool" where
  "request_inv c \<longleftrightarrow>
     (\<forall>g f. flows c g = Some f \<longrightarrow>
        (pc f = At_generateScript \<longrightarrow> (\<forall>j. Request_audio g j \<notin> set (trace c)))
      \<and> (pc f = At_firstAudio \<longrightarrow> (\<forall>j. Request_audio g j \<in> set (trace c) \<longrightarrow> j = 0)))"

definition reach_inv :: "Controller \<Rightarrow> bool" where
  "reach_inv c \<longleftrightarrow> bounded c \<and> commit_inv c \<and> image_inv c \<and> audio_inv c
                   \<and> script_inv c \<and> request_inv c"

text \<open>\<open>addToLibrary\<close> was called at most once for each generation.\<close>

definition commit_once :: "Controller \<Rightarrow> bool" where
  "commit_once c \<longleftrightarrow> (\<forall>g. count_list (trace c) (Commit g) \<le> 1)"

text \<open>
  Sequential synthesis: the request for chunk \<open>j + 1\<close> of a generation comes right after
  the settlement of its chunk \<open>j\<close>.
\<close>

definition pipelined :: "action list \<Rightarrow> bool" where
  "pipelined tr \<longleftrightarrow>
     (\<forall>k g j. k < length tr \<and> tr ! k = Request_audio g (Suc j) \<longrightarrow>
        0 < k \<and> tr ! (k - 1) = Settled_audio g j)"

text \<open>The invocation of generation \<open>g\<close> has returned.\<close>

definition returned :: "nat \<Rightarrow> Controller \<Rightarrow> bool" where
  "returned g c \<longleftrightarrow> (\<exists>f. flows c g = Some f \<and> pc f = Returned)"

subsection \<open>One session, event by event\<close>

text \<open>The URLs of the successful attempts, in order.\<close>

fun successes :: "(thrown + string) list \<Rightarrow> string list" where
  "successes [] = []"
| "successes (Inr url # rs) = url # successes rs"
| "successes (Inl e # rs) = successes rs"

text \<open>The outcomes of the audio attempts of generation \<open>g\<close> among a list of events.\<close>

fun audio_results :: "nat \<Rightarrow> event list \<Rightarrow> (thrown + string) list" where
  "audio_results g [] = []"
| "audio_results g (Audio_settled h r # es) =
     (if h = g then r # audio_results g es else audio_results g es)"
| "audio_results g (e # es) = audio_results g es"

text \<open>The events that leave \<open>generationIdRef\<close> alone, and the generation an event settles.\<close>

fun keeps_epoch :: "event \<Rightarrow> bool" where
  "keeps_epoch (Start category' customImage' shouldGenerateImage') = False"
| "keeps_epoch Stop = False"
| "keeps_epoch e = True"

fun event_flow :: "event \<Rightarrow> nat option" where
  "event_flow (Start category' customImage' shouldGenerateImage') = None"
| "event_flow Stop = None"
| "event_flow (Script_settled g r) = Some g"
| "event_flow (Audio_settled g r) = Some g"
| "event_flow (Image_settled g r) = Some g"
| "event_flow (Image_joined g uuid now) = Some g"

text \<open>
  The events in the middle of the session of generation \<open>g\<close>: the epoch stays current, and
  the join of \<open>g\<close> with its image is not among them (it ends the session).
\<close>

fun mid_event :: "nat \<Rightarrow> event \<Rightarrow> bool" where
  "mid_event g (Start category' customImage' shouldGenerateImage') = False"
| "mid_event g Stop = False"
| "mid_event g (Image_joined h uuid now) = (h \<noteq> g)"
| "mid_event g e = True"

text \<open>
  The audio entries of generation \<open>g\<close> in a history, and what they are when \<open>i\<close> of \<open>N\<close>
  chunks have settled: a request and its settlement for each, then the request for chunk
  \<open>i\<close> if there is one.
\<close>

fun audio_of :: "nat \<Rightarrow> action \<Rightarrow> bool" where
  "audio_of g (Request_audio h j) = (h = g)"
| "audio_of g (Settled_audio h j) = (h = g)"
| "audio_of g a = False"

definition audio_log :: "nat \<Rightarrow> nat \<Rightarrow> nat \<Rightarrow> action list" where
  "audio_log g i N =
     concat (map (\<lambda>j. [Request_audio g j, Settled_audio g j]) [0 ..< i])
     @ (if i < N then [Request_audio g i] else [])"

text \<open>Where the invocation waits when \<open>i\<close> of \<open>N\<close> chunks have settled.\<close>

definition at_chunk :: "nat \<Rightarrow> nat \<Rightarrow> Flow \<Rightarrow> bool" where
  "at_chunk i N f \<longleftrightarrow>
     (if i < N then (if i = 0 then pc f = At_firstAudio else pc f = At_chunkAudio \<and> loop_i f = i)
      else pc f = At_imageGenPromise)"

text \<open>
  The session of the current generation \<open>g\<close> when \<open>i\<close> chunks have settled and \<open>urls\<close> were
  produced; \<open>base\<close> is what the history held of \<open>g\<close>'s audio before the session.
\<close>

definition sess ::
  "nat \<Rightarrow> PodcastScript \<Rightarrow> PodcastScript list \<Rightarrow> string \<Rightarrow> PodcastEpisode list
   \<Rightarrow> action list \<Rightarrow> nat \<Rightarrow> string list \<Rightarrow> Controller \<Rightarrow> bool" where
  "sess g scr chunks cat lib base i urls c \<longleftrightarrow>
     generationIdRef c = g \<and> library (state c) = lib \<and> audioSegments (state c) = urls
   \<and> script (state c) = Some scr
   \<and> filter (audio_of g) (trace c) = base @ audio_log g i (length chunks)
   \<and> (\<exists>f. flows c g = Some f \<and> flow_script f = Some scr \<and> scriptChunks f = chunks
          \<and> category f = cat \<and> audioUrls f = urls \<and> imageGen f \<noteq> Image_unstarted
          \<and> at_chunk i (length chunks) f)"

definition img_done :: "nat \<Rightarrow> Controller \<Rightarrow> bool" where
  "img_done g c \<longleftrightarrow> (\<exists>f. flows c g = Some f \<and> imageGen f = Image_resolved)"

subsection \<open>Example sessions\<close>

text \<open>A session stopped while the audio of its first chunk is being synthesized.\<close>

definition cancelled_events :: "event list" where
  "cancelled_events =
     [Start ''custom'' None True, Script_settled 1 (Inr (demo_script 9)), Stop]"

text \<open>A session of two chunks, up to the join with its cover image.\<close>

definition two_chunk_events :: "event list" where
  "two_chunk_events =
     [Start ''custom'' None True, Script_settled 1 (Inr (demo_script 9)),
      Audio_settled 1 (Inr ''blob:a0''), Image_settled 1 (Inr ''data:cover''),
      Audio_settled 1 (Inr ''blob:a1'')]"

definition two_chunk_run :: Controller where
  "two_chunk_run = run (initController initialState) two_chunk_events"

text \<open>
  A session waiting for the audio of its first chunk, and what may still settle after
  that audio has failed.
\<close>

definition first_chunk_events :: "event list" where
  "first_chunk_events = [Start ''custom'' None True, Script_settled 1 (Inr (demo_script 9))]"

definition first_chunk_run :: Controller where
  "first_chunk_run = run (initController initialState) first_chunk_events"

definition after_failure :: "event list" where
  "after_failure = [Audio_settled 1 (Inr ''blob:late''), Image_settled 1 (Inr ''data:cover''),
                    Image_joined 1 ''uuid-1'' 1700]"

text \<open>A session of three chunks whose second chunk fails and whose image is not produced.\<close>

definition three_chunk_results :: "event list" where
  "three_chunk_results =
     [Audio_settled 1 (Inr ''blob:a0''), Audio_settled 1 (Inl NonError),
      Image_settled 1 (Inr []), Audio_settled 1 (Inr ''blob:a2'')]"

definition three_chunk_run :: Controller where
  "three_chunk_run =
     run (initController initialState)
       ([Start ''custom'' None True, Script_settled 1 (Inr (demo_script 13))]
        @ three_chunk_results @ [Image_joined 1 ''uuid-1'' 1700])"

text \<open>A session whose script has no lines.\<close>

definition empty_script_run :: Controller where
  "empty_script_run =
     run (initController initialState)
       ([Start ''custom'' None True, Script_settled 1 (Inr (demo_script 0))]
        @ [Image_settled 1 (Inr ''data:cover'')] @ [Image_joined 1 ''uuid-1'' 1700])"

text \<open>The registry right after a topic was added.\<close>

definition chess_inserted :: AppState where
  "chess_inserted = handleAddTopic_insert ''t1'' ''Chess'' ''chess news'' None initialState"

section \<open>Properties of the script chunker\<close>

lemma chunkLoop_closed:
  assumes "0 < K"
  shows "chunkLoop s K (j * K) acc
         = Some (acc @ map (nth_chunk s K) [j ..< (length (lines s) + K - 1) div K])"
proof (induction "length (lines s) - j * K" arbitrary: j acc rule: less_induct)
  case less
  let ?L = "length (lines s)"
  let ?n = "(?L + K - 1) div K"
  show ?case
  proof (cases "j * K < ?L")
    case True
    have jn: "j < ?n"
    proof -
      have "j * K + K \<le> ?L + K - 1" using True assms by simp
      then have "(j + 1) * K \<le> ?L + K - 1" by (simp add: algebra_simps)
      then have "j + 1 \<le> ?n" using assms by (simp add: less_eq_div_iff_mult_less_eq)
      then show ?thesis by simp
    qed
    have dec: "?L - Suc j * K < ?L - j * K" using True assms by simp
    have step: "chunkLoop s K (j * K) acc
                = chunkLoop s K (Suc j * K) (acc @ [nth_chunk s K j])"
      using True
      by (subst chunkLoop.simps) (simp add: slice_def nth_chunk_def add.commute)
    also have "\<dots> = Some ((acc @ [nth_chunk s K j]) @ map (nth_chunk s K) [Suc j ..< ?n])"
      by (rule less.hyps [OF dec])
    also have "\<dots> = Some (acc @ map (nth_chunk s K) [j ..< ?n])"
      using jn by (simp add: upt_conv_Cons)
    finally show ?thesis .
  next
    case False
    have "?n \<le> j"
    proof -
      have "?L + K - 1 < j * K + K" using False assms by simp
      then have "?L + K - 1 < (j + 1) * K" by (simp add: algebra_simps)
      then have "?n < j + 1" using assms by (simp add: div_less_iff_less_mult)
      then show ?thesis by simp
    qed
    then show ?thesis
      using False by (subst chunkLoop.simps) simp
  qed
qed

lemma chunkScript_closed:
  "0 < K \<Longrightarrow> chunkScript s K
     = Some (map (nth_chunk s K) [0 ..< (length (lines s) + K - 1) div K])"
  using chunkLoop_closed [of K s 0 "[]"] by (simp add: chunkScript_def)

lemma concat_take_drop_chunks:
  "0 < K \<Longrightarrow> n * K \<ge> length xs \<Longrightarrow>
   concat (map (\<lambda>j. take K (drop (j * K) xs)) [0 ..< n]) = xs"
proof (induction n arbitrary: xs)
  case 0
  then show ?case by simp
next
  case (Suc n)
  have len: "length (drop K xs) \<le> n * K" using Suc.prems by simp
  have shift: "map (\<lambda>j. take K (drop (j * K) xs)) [Suc 0 ..< Suc n]
               = map (\<lambda>j. take K (drop (j * K) (drop K xs))) [0 ..< n]"
    by (simp add: map_Suc_upt [symmetric] add.commute del: upt_Suc)
  have "concat (map (\<lambda>j. take K (drop (j * K) xs)) [0 ..< Suc n])
        = take K xs @ concat (map (\<lambda>j. take K (drop (j * K) xs)) [Suc 0 ..< Suc n])"
    by (simp add: upt_conv_Cons del: upt_Suc)
  also have "\<dots> = take K xs @ drop K xs"
    using Suc.IH [OF Suc.prems(1) len] shift by simp
  finally show ?case by simp
qed

lemma ceil_div_covers: "0 < K \<Longrightarrow> (L::nat) \<le> ((L + K - 1) div K) * K"
proof -
  assume K: "0 < K"
  have "L + K - 1 = ((L + K - 1) div K) * K + (L + K - 1) mod K" by simp
  moreover have "(L + K - 1) mod K \<le> K - 1" using K by (simp add: Suc_leI less_Suc_eq_le [symmetric])
  ultimately show ?thesis using K by linarith
qed

text \<open>
  C5. For a positive chunk size \<open>K\<close> and a script of \<open>L\<close> lines, \<open>chunkScript\<close> returns
  (it never fails or loops) exactly \<open>ceil (L / K)\<close> sub-scripts, which is zero for
  \<open>L = 0\<close>; the \<open>j\<close>-th holds the contiguous slice of lines \<open>j * K ..< j * K + K\<close>
  (so slices do not overlap), at most \<open>K\<close> lines, and the parent's title, topic, summary
  and digest; concatenating the slices in order gives back the original lines.
\<close>

theorem chunkScript_spec:
  assumes "0 < K"
  shows "\<exists>chunks. chunkScript s K = Some chunks
           \<and> length chunks = (length (lines s) + K - 1) div K
           \<and> (length (lines s) = 0 \<longrightarrow> chunks = [])
           \<and> (\<forall>j < length chunks.
                 lines (chunks ! j) = slice (lines s) (j * K) (j * K + K)
               \<and> length (lines (chunks ! j)) \<le> K
               \<and> title (chunks ! j) = title s \<and> topic (chunks ! j) = topic s
               \<and> summary (chunks ! j) = summary s \<and> digest (chunks ! j) = digest s)
           \<and> concat (map lines chunks) = lines s"
proof -
  let ?n = "(length (lines s) + K - 1) div K"
  let ?chunks = "map (nth_chunk s K) [0 ..< ?n]"
  have 1: "chunkScript s K = Some ?chunks" by (rule chunkScript_closed [OF assms])
  have 2: "length ?chunks = ?n" by simp
  have 3: "length (lines s) = 0 \<longrightarrow> ?chunks = []" using assms by simp
  have 4: "\<forall>j < length ?chunks.
                 lines (?chunks ! j) = slice (lines s) (j * K) (j * K + K)
               \<and> length (lines (?chunks ! j)) \<le> K
               \<and> title (?chunks ! j) = title s \<and> topic (?chunks ! j) = topic s
               \<and> summary (?chunks ! j) = summary s \<and> digest (?chunks ! j) = digest s"
    by (simp add: nth_chunk_def slice_def)
  have "map lines ?chunks = map (\<lambda>j. take K (drop (j * K) (lines s))) [0 ..< ?n]"
    by (simp add: nth_chunk_def)
  then have 5: "concat (map lines ?chunks) = lines s"
    by (simp only: concat_take_drop_chunks [OF assms ceil_div_covers [OF assms]])
  from 1 2 3 4 5 show ?thesis by blast
qed

theorem chunkScript_spec_witness:
  "(0::nat) < 2
   \<and> (\<exists>chunks. chunkScript demo_script3 2 = Some chunks
         \<and> length chunks = 2
         \<and> map lines chunks = [take 2 (lines demo_script3), drop 2 (lines demo_script3)]
         \<and> concat (map lines chunks) = lines demo_script3)"
proof -
  have K: "(0::nat) < 2" by simp
  from chunkScript_spec [OF K, of demo_script3]
  obtain chunks where c: "chunkScript demo_script3 2 = Some chunks"
    "length chunks = (length (lines demo_script3) + 2 - 1) div 2"
    "\<forall>j < length chunks. lines (chunks ! j) = slice (lines demo_script3) (j * 2) (j * 2 + 2)"
    "concat (map lines chunks) = lines demo_script3"
    by blast
  have len: "length chunks = 2" using c(2) by (simp add: demo_script3_def)
  then obtain a b where ab: "chunks = [a, b]"
    by (cases chunks; cases "tl chunks"; cases "tl (tl chunks)") auto
  have "lines a = take 2 (lines demo_script3)" "lines b = drop 2 (lines demo_script3)"
    using c(3) [rule_format, of 0] c(3) [rule_format, of 1] ab
    by (simp_all add: slice_def demo_script3_def)
  then show ?thesis using c(1) c(4) ab by simp
qed

section \<open>Properties of the audio segment codec\<close>

lemma length_le32: "length (le32 v) = 4"
  by (simp add: le32_def Let_def)

lemma length_le16: "length (le16 v) = 2"
  by (simp add: le16_def Let_def)

lemma createWavBlob_bytes: "createWavBlob pcm R = Some (wavHeader (length pcm) R @ pcm)"
  unfolding createWavBlob_def wavHeader_def
  by (simp add: setUint8_def setUint16_def setUint32_def length_le16 length_le32 Let_def)

lemma length_wavHeader: "length (wavHeader N R) = 44"
  by (simp add: wavHeader_def length_le16 length_le32)

lemma uint_byte_of_int: "uint (word_of_int (k mod 256) :: byte) = k mod 256"
  by (simp add: uint_word_of_int)

lemma le32_value:
  "uint (le32 v ! 0) + 256 * uint (le32 v ! 1) + 65536 * uint (le32 v ! 2)
     + 16777216 * uint (le32 v ! 3) = v mod 2 ^ 32"
proof -
  define w where "w = v mod 2 ^ 32"
  define q1 where "q1 = w div 256"
  define q2 where "q2 = q1 div 256"
  define q3 where "q3 = q2 div 256"
  have w: "0 \<le> w" "w < 256 * (256 * (256 * 256))" by (simp_all add: w_def)
  have q: "w div 65536 = q2" "w div 16777216 = q3"
    by (simp_all add: q1_def q2_def q3_def div_mult2_eq [symmetric])
  have "q1 < 256 * (256 * 256)" using w(2) unfolding q1_def by (simp add: div_less_iff_less_mult)
  then have "q2 < 256 * 256" unfolding q2_def by (simp add: div_less_iff_less_mult)
  then have "q3 < 256" unfolding q3_def by (simp add: div_less_iff_less_mult)
  moreover have "0 \<le> q3" using w(1) by (simp add: q1_def q2_def q3_def)
  ultimately have e4: "q3 mod 256 = q3" by simp
  have e1: "w mod 256 + 256 * q1 = w" by (simp add: q1_def)
  have e2: "q1 mod 256 + 256 * q2 = q1" by (simp add: q2_def)
  have e3: "q2 mod 256 + 256 * q3 = q2" by (simp add: q3_def)
  have sum: "w mod 256 + 256 * (q1 mod 256) + 65536 * (q2 mod 256) + 16777216 * (q3 mod 256) = w"
    using e1 e2 e3 e4 by linarith
  have n: "le32 v ! 0 = word_of_int (w mod 256)" "le32 v ! 1 = word_of_int (q1 mod 256)"
    "le32 v ! 2 = word_of_int (q2 mod 256)" "le32 v ! 3 = word_of_int (q3 mod 256)"
    unfolding q [symmetric] q1_def by (simp_all add: le32_def w_def Let_def)
  show ?thesis
    unfolding n uint_byte_of_int using sum by (simp only: w_def)
qed

lemma le16_value:
  "uint (le16 v ! 0) + 256 * uint (le16 v ! 1) = v mod 2 ^ 16"
proof -
  define w where "w = v mod 2 ^ 16"
  define q1 where "q1 = w div 256"
  have w: "0 \<le> w" "w < 256 * 256" by (simp_all add: w_def)
  have "q1 < 256" using w(2) unfolding q1_def by (simp add: div_less_iff_less_mult)
  moreover have "0 \<le> q1" using w(1) by (simp add: q1_def)
  ultimately have e2: "q1 mod 256 = q1" by simp
  have e1: "w mod 256 + 256 * q1 = w" by (simp add: q1_def)
  have sum: "w mod 256 + 256 * (q1 mod 256) = w"
    using e1 e2 by linarith
  have n: "le16 v ! 0 = word_of_int (w mod 256)" "le16 v ! 1 = word_of_int (q1 mod 256)"
    unfolding q1_def by (simp_all add: le16_def w_def Let_def)
  show ?thesis
    unfolding n uint_byte_of_int using sum by (simp only: w_def)
qed

lemma getUint32_field:
  assumes "take 4 (drop off b) = le32 v"
  shows "getUint32 b off = v mod 2 ^ 32"
proof -
  have len: "length (take 4 (drop off b)) = 4" using assms by (simp add: length_le32)
  then have l: "off + 4 \<le> length b" by simp
  have "\<And>k. k < 4 \<Longrightarrow> b ! (off + k) = le32 v ! k"
    using assms l by (metis nth_take nth_drop add_leD1)
  from this [of 0] this [of 1] this [of 2] this [of 3] show ?thesis
    using le32_value [of v] by (simp add: getUint32_def)
qed

lemma getUint16_field:
  assumes "take 2 (drop off b) = le16 v"
  shows "getUint16 b off = v mod 2 ^ 16"
proof -
  have len: "length (take 2 (drop off b)) = 2" using assms by (simp add: length_le16)
  then have l: "off + 2 \<le> length b" by simp
  have "\<And>k. k < 2 \<Longrightarrow> b ! (off + k) = le16 v ! k"
    using assms l by (metis nth_take nth_drop add_leD1)
  from this [of 0] this [of 1] show ?thesis
    using le16_value [of v] by (simp add: getUint16_def)
qed

lemma wavHeader_layout:
  "take 4 (wavHeader N R @ pcm) = [0x52, 0x49, 0x46, 0x46]"
  "take 4 (drop 4 (wavHeader N R @ pcm)) = le32 (36 + int N)"
  "take 4 (drop 8 (wavHeader N R @ pcm)) = [0x57, 0x41, 0x56, 0x45]"
  "take 4 (drop 12 (wavHeader N R @ pcm)) = [0x66, 0x6D, 0x74, 0x20]"
  "take 4 (drop 16 (wavHeader N R @ pcm)) = le32 16"
  "take 2 (drop 20 (wavHeader N R @ pcm)) = le16 1"
  "take 2 (drop 22 (wavHeader N R @ pcm)) = le16 1"
  "take 4 (drop 24 (wavHeader N R @ pcm)) = le32 R"
  "take 4 (drop 28 (wavHeader N R @ pcm)) = le32 (2 * R)"
  "take 2 (drop 32 (wavHeader N R @ pcm)) = le16 2"
  "take 2 (drop 34 (wavHeader N R @ pcm)) = le16 16"
  "take 4 (drop 36 (wavHeader N R @ pcm)) = [0x64, 0x61, 0x74, 0x61]"
  "take 4 (drop 40 (wavHeader N R @ pcm)) = le32 (int N)"
  "drop 44 (wavHeader N R @ pcm) = pcm"
  by (simp_all add: wavHeader_def length_le32 length_le16)

lemma wavHeader_fields:
  "getUint32 (wavHeader N R @ pcm) 4 = (36 + int N) mod 2 ^ 32"
  "getUint32 (wavHeader N R @ pcm) 16 = 16"
  "getUint16 (wavHeader N R @ pcm) 20 = 1"
  "getUint16 (wavHeader N R @ pcm) 22 = 1"
  "getUint32 (wavHeader N R @ pcm) 24 = R mod 2 ^ 32"
  "getUint32 (wavHeader N R @ pcm) 28 = 2 * R mod 2 ^ 32"
  "getUint16 (wavHeader N R @ pcm) 32 = 2"
  "getUint16 (wavHeader N R @ pcm) 34 = 16"
  "getUint32 (wavHeader N R @ pcm) 40 = int N mod 2 ^ 32"
proof -
  show "getUint32 (wavHeader N R @ pcm) 4 = (36 + int N) mod 2 ^ 32"
    by (rule getUint32_field [OF wavHeader_layout(2)])
  show "getUint32 (wavHeader N R @ pcm) 16 = 16"
    by (simp add: getUint32_field [OF wavHeader_layout(5)])
  show "getUint16 (wavHeader N R @ pcm) 20 = 1"
    by (simp add: getUint16_field [OF wavHeader_layout(6)])
  show "getUint16 (wavHeader N R @ pcm) 22 = 1"
    by (simp add: getUint16_field [OF wavHeader_layout(7)])
  show "getUint32 (wavHeader N R @ pcm) 24 = R mod 2 ^ 32"
    by (rule getUint32_field [OF wavHeader_layout(8)])
  show "getUint32 (wavHeader N R @ pcm) 28 = 2 * R mod 2 ^ 32"
    by (rule getUint32_field [OF wavHeader_layout(9)])
  show "getUint16 (wavHeader N R @ pcm) 32 = 2"
    by (simp add: getUint16_field [OF wavHeader_layout(10)])
  show "getUint16 (wavHeader N R @ pcm) 34 = 16"
    by (simp add: getUint16_field [OF wavHeader_layout(11)])
  show "getUint32 (wavHeader N R @ pcm) 40 = int N mod 2 ^ 32"
    by (rule getUint32_field [OF wavHeader_layout(13)])
qed

lemma tag_bytes:
  "map of_char ''RIFF'' = [0x52, 0x49, 0x46, 0x46 :: byte]"
  "map of_char ''WAVE'' = [0x57, 0x41, 0x56, 0x45 :: byte]"
  "map of_char ''fmt '' = [0x66, 0x6D, 0x74, 0x20 :: byte]"
  "map of_char ''data'' = [0x64, 0x61, 0x74, 0x61 :: byte]"
  by simp_all

text \<open>
  C6, as amended. For a PCM buffer of \<open>N\<close> bytes with \<open>36 + N < 2 ^ 32\<close> and an integer
  sample rate \<open>R\<close> with \<open>0 \<le> R < 2 ^ 31\<close>, encoding gives the 44-byte header followed
  by the unmodified payload, and the header reads back: "RIFF" at 0, file size \<open>36 + N\<close>
  at 4, "WAVE" at 8, "fmt " at 12, 16 at 16, format 1 at 20, 1 channel at 22, sample rate
  \<open>R\<close> at 24, byte rate \<open>2 * R\<close> at 28, block align 2 at 32, 16 bits per sample at 34,
  "data" at 36 and data size \<open>N\<close> at 40 (all little-endian). Without the bounds the
  four-byte fields hold these values modulo \<open>2 ^ 32\<close> (lemma \<open>wavHeader_fields\<close>).
\<close>

theorem createWavBlob_spec:
  assumes "36 + int (length pcm) < 2 ^ 32" and "0 \<le> R" and "R < 2 ^ 31"
  shows "\<exists>blob. createWavBlob pcm R = Some blob
           \<and> length blob = 44 + length pcm
           \<and> drop 44 blob = pcm
           \<and> take 4 blob = map of_char ''RIFF''
           \<and> getUint32 blob 4 = 36 + int (length pcm)
           \<and> take 4 (drop 8 blob) = map of_char ''WAVE''
           \<and> take 4 (drop 12 blob) = map of_char ''fmt ''
           \<and> getUint32 blob 16 = 16
           \<and> getUint16 blob 20 = 1
           \<and> getUint16 blob 22 = 1
           \<and> getUint32 blob 24 = R
           \<and> getUint32 blob 28 = 2 * R
           \<and> getUint16 blob 32 = 2
           \<and> getUint16 blob 34 = 16
           \<and> take 4 (drop 36 blob) = map of_char ''data''
           \<and> getUint32 blob 40 = int (length pcm)"
proof -
  let ?blob = "wavHeader (length pcm) R @ pcm"
  have R32: "R mod 2 ^ 32 = R" "2 * R mod 2 ^ 32 = 2 * R" using assms by simp_all
  have N32: "(36 + int (length pcm)) mod 2 ^ 32 = 36 + int (length pcm)"
    "int (length pcm) mod 2 ^ 32 = int (length pcm)"
    using assms by simp_all
  have "createWavBlob pcm R = Some ?blob" by (rule createWavBlob_bytes)
  moreover have "length ?blob = 44 + length pcm" by (simp add: length_wavHeader)
  moreover have "getUint32 ?blob 24 = R" "getUint32 ?blob 28 = 2 * R"
    by (simp_all only: wavHeader_fields R32)
  moreover have "getUint32 ?blob 4 = 36 + int (length pcm)" "getUint32 ?blob 40 = int (length pcm)"
    by (simp_all only: wavHeader_fields N32)
  ultimately show ?thesis
    by (simp only: wavHeader_layout wavHeader_fields tag_bytes ex_simps simp_thms option.inject)
qed

theorem createWavBlob_spec_witness:
  "36 + int (length [1, 2, 3 :: byte]) < 2 ^ 32 \<and> (0::int) \<le> 24000 \<and> (24000::int) < 2 ^ 31
   \<and> (\<exists>blob. createWavBlob [1, 2, 3] 24000 = Some blob
         \<and> length blob = 47 \<and> drop 44 blob = [1, 2, 3]
         \<and> getUint32 blob 4 = 39 \<and> getUint32 blob 24 = 24000
         \<and> getUint32 blob 28 = 48000 \<and> getUint32 blob 40 = 3)"
  using createWavBlob_spec [of "[1, 2, 3]" 24000] by simp blast

text \<open>
  The claim as stated, for every sample rate, fails at \<open>R = 2 ^ 31\<close>: the byte rate
  \<open>2 ^ 32\<close> does not fit its field, which then holds 0.
\<close>

theorem createWavBlob_byteRate_counterexample:
  "getUint32 (the (createWavBlob [] 2147483648)) 28 = 0
   \<and> getUint32 (the (createWavBlob [] 2147483648)) 28 \<noteq> 2 * 2147483648"
  using wavHeader_fields(6) [of 0 2147483648 "[]"] by (simp add: createWavBlob_bytes)

lemma those_map_Some: "those (map Some xs) = Some xs"
  by (induction xs) simp_all

lemma copyChunks_concat:
  "offset + length (concat chunks) \<le> length m \<Longrightarrow>
   copyChunks m offset chunks
     = Some (take offset m @ concat chunks @ drop (offset + length (concat chunks)) m)"
proof (induction chunks arbitrary: m offset)
  case Nil
  then show ?case by simp
next
  case (Cons chunk rest)
  let ?m' = "take offset m @ chunk @ drop (offset + length chunk) m"
  have fits: "offset + length chunk \<le> length m" using Cons.prems by simp
  have len: "length ?m' = length m" using fits by simp
  have "copyChunks m offset (chunk # rest) = copyChunks ?m' (offset + length chunk) rest"
    using fits by (simp add: typedArraySet_def)
  also have "\<dots> = Some (take (offset + length chunk) ?m' @ concat rest
                        @ drop (offset + length chunk + length (concat rest)) ?m')"
    using Cons.prems by (subst Cons.IH) (simp_all only: len, simp_all add: add.assoc)
  also have "take (offset + length chunk) ?m' = take offset m @ chunk"
    using fits by simp
  also have "drop (offset + length chunk + length (concat rest)) ?m'
             = drop (offset + length (concat (chunk # rest))) m"
    using fits by (simp add: add.assoc add.commute add.left_commute)
  finally show ?case by simp
qed

lemma sum_list_length_concat: "sum_list (map length xss) = length (concat xss)"
  by (induction xss) simp_all

lemma mergeAudioSegments_bytes:
  "mergeAudioSegments (map Some buffers)
     = Some (wavHeader (length (concat (map pcmChunk buffers))) 24000
             @ concat (map pcmChunk buffers))"
proof -
  let ?pcm = "concat (map pcmChunk buffers)"
  have "copyChunks (replicate (length ?pcm) 0) 0 (map pcmChunk buffers) = Some ?pcm"
    by (subst copyChunks_concat) simp_all
  then show ?thesis
    by (simp add: mergeAudioSegments_def those_map_Some sum_list_length_concat
        createWavBlob_bytes Let_def)
qed

lemma pcmChunk_long: "\<forall>b \<in> set buffers. 45 \<le> length b \<Longrightarrow>
   map pcmChunk buffers = map (drop 44) buffers"
  by (induction buffers) (simp_all add: pcmChunk_def headerSize_def)

lemma length_concat_drop:
  "length (concat (map (drop 44) buffers)) = (\<Sum>b\<leftarrow>buffers. length b - 44)"
  by (induction buffers) simp_all

text \<open>
  C7, as amended. For fetched segments, merging strips the first 44 bytes of every
  segment of at least 45 bytes, takes nothing from a shorter one, concatenates the
  payloads in input order and encodes the result at 24000 Hz. When every segment has at
  least 45 bytes and the payloads total less than \<open>2 ^ 32\<close> bytes, the data size field
  of the output is the sum of the payload lengths, and the payload is the concatenation
  of the stripped payloads.
\<close>

theorem mergeAudioSegments_spec:
  "\<exists>blob. mergeAudioSegments (map Some buffers) = Some blob
     \<and> createWavBlob (concat (map pcmChunk buffers)) 24000 = Some blob
     \<and> (\<forall>b \<in> set buffers. pcmChunk b = (if 45 \<le> length b then drop 44 b else []))
     \<and> drop 44 blob = concat (map pcmChunk buffers)
     \<and> getUint32 blob 24 = 24000
     \<and> ((\<forall>b \<in> set buffers. 45 \<le> length b) \<and> (\<Sum>b\<leftarrow>buffers. length b - 44) < 2 ^ 32
          \<longrightarrow> getUint32 blob 40 = int (\<Sum>b\<leftarrow>buffers. length b - 44)
            \<and> drop 44 blob = concat (map (drop 44) buffers))"
proof -
  let ?pcm = "concat (map pcmChunk buffers)"
  let ?blob = "wavHeader (length ?pcm) 24000 @ ?pcm"
  have 1: "mergeAudioSegments (map Some buffers) = Some ?blob"
    by (rule mergeAudioSegments_bytes)
  have 2: "createWavBlob ?pcm 24000 = Some ?blob" by (rule createWavBlob_bytes)
  have 3: "\<forall>b \<in> set buffers. pcmChunk b = (if 45 \<le> length b then drop 44 b else [])"
    by (auto simp: pcmChunk_def headerSize_def)
  have 4: "drop 44 ?blob = ?pcm" by (rule wavHeader_layout)
  have 5: "getUint32 ?blob 24 = 24000" by (simp add: wavHeader_fields)
  have 6: "getUint32 ?blob 40 = int (\<Sum>b\<leftarrow>buffers. length b - 44)
            \<and> drop 44 ?blob = concat (map (drop 44) buffers)"
    if long: "\<forall>b \<in> set buffers. 45 \<le> length b"
      and small: "(\<Sum>b\<leftarrow>buffers. length b - 44) < 2 ^ 32"
  proof -
    have pcm: "?pcm = concat (map (drop 44) buffers)"
      by (simp only: pcmChunk_long [OF long])
    have len: "length ?pcm = (\<Sum>b\<leftarrow>buffers. length b - 44)"
      by (simp only: pcm length_concat_drop)
    have "int (length ?pcm) mod 2 ^ 32 = int (length ?pcm)"
      using small by (simp only: len) simp
    then have "getUint32 ?blob 40 = int (length ?pcm)"
      by (simp only: wavHeader_fields)
    then show ?thesis using 4 by (simp only: len) (simp only: pcm)
  qed
  from 1 2 3 4 5 6 show ?thesis by blast
qed

theorem mergeAudioSegments_spec_witness:
  "length demo_segments = 2
   \<and> 45 \<le> length (demo_segments ! 0) \<and> 45 \<le> length (demo_segments ! 1)
   \<and> (\<Sum>b\<leftarrow>demo_segments. length b - 44) < 2 ^ 32
   \<and> (\<exists>blob. mergeAudioSegments (map Some demo_segments) = Some blob
         \<and> getUint32 blob 40 = 3 \<and> drop 44 blob = [1, 2, 3])"
  using mergeAudioSegments_spec [of demo_segments] by (simp add: demo_segments_def) blast

text \<open>
  The claim as stated fails for a segment with \<open>2 ^ 32\<close> payload bytes: the data size
  field of the merged file reads 0.
\<close>

theorem mergeAudioSegments_dataSize_counterexample:
  "45 \<le> length big_segment
   \<and> (\<Sum>b\<leftarrow>[big_segment]. length b - 44) = 2 ^ 32
   \<and> getUint32 (the (mergeAudioSegments [Some big_segment])) 40 = 0"
proof -
  have "mergeAudioSegments (map Some [big_segment])
     = Some (wavHeader (length (concat (map pcmChunk [big_segment]))) 24000
             @ concat (map pcmChunk [big_segment]))"
    by (rule mergeAudioSegments_bytes)
  moreover have "length (concat (map pcmChunk [big_segment])) = 2 ^ 32"
    by (simp add: pcmChunk_def headerSize_def big_segment_def)
  ultimately show ?thesis
    by (simp add: wavHeader_fields big_segment_def)
qed

section \<open>Properties of audio synthesis with retries\<close>

lemma generateAudioLoop_4:
  "generateAudioLoop tts 4 (Some e) steps
     = (Inl (if thrown_truthy e then e
             else Error ''Failed to generate audio after retries''), steps)"
  by (subst generateAudioLoop.simps) (simp add: maxRetries_def)

lemma generateAudioLoop_3:
  "generateAudioLoop tts 3 lastError steps =
     (case tts 3 of
        Inr url \<Rightarrow> (Inr url, steps @ [Attempt 3])
      | Inl e \<Rightarrow> (Inl (if thrown_truthy e then e
                        else Error ''Failed to generate audio after retries''),
                   steps @ [Attempt 3]))"
  by (subst generateAudioLoop.simps)
     (simp add: maxRetries_def generateAudioLoop_4 split: sum.split)

lemma generateAudioLoop_2:
  "generateAudioLoop tts 2 lastError steps =
     (case tts 2 of Inr url \<Rightarrow> (Inr url, steps @ [Attempt 2])
                  | Inl e \<Rightarrow> generateAudioLoop tts 3 (Some e) (steps @ [Attempt 2, Delay 4000]))"
  by (subst generateAudioLoop.simps) (simp add: maxRetries_def split: sum.split)

lemma generateAudioLoop_1:
  "generateAudioLoop tts 1 lastError steps =
     (case tts 1 of Inr url \<Rightarrow> (Inr url, steps @ [Attempt 1])
                  | Inl e \<Rightarrow> generateAudioLoop tts 2 (Some e) (steps @ [Attempt 1, Delay 2000]))"
  by (subst generateAudioLoop.simps) (simp add: maxRetries_def split: sum.split del: One_nat_def)

lemma generateAudioLoop_0:
  "generateAudioLoop tts 0 lastError steps =
     (case tts 0 of Inr url \<Rightarrow> (Inr url, steps @ [Attempt 0])
                  | Inl e \<Rightarrow> generateAudioLoop tts 1 (Some e) (steps @ [Attempt 0, Delay 1000]))"
  by (subst generateAudioLoop.simps) (simp add: maxRetries_def split: sum.split del: One_nat_def)

lemma generateAudio_cases:
  "generateAudio tts =
     (case tts 0 of Inr url \<Rightarrow> (Inr url, [Attempt 0]) | Inl e0 \<Rightarrow>
      (case tts 1 of Inr url \<Rightarrow> (Inr url, [Attempt 0, Delay 1000, Attempt 1]) | Inl e1 \<Rightarrow>
       (case tts 2 of
          Inr url \<Rightarrow> (Inr url, [Attempt 0, Delay 1000, Attempt 1, Delay 2000, Attempt 2])
        | Inl e2 \<Rightarrow>
            (case tts 3 of
               Inr url \<Rightarrow> (Inr url, retrySchedule)
             | Inl e3 \<Rightarrow> (Inl (if thrown_truthy e3 then e3
                                else Error ''Failed to generate audio after retries''),
                          retrySchedule)))))"
  by (simp add: generateAudio_def retrySchedule_def generateAudioLoop_0 generateAudioLoop_1
      generateAudioLoop_2 generateAudioLoop_3 split: sum.split del: One_nat_def)

text \<open>
  Claim C9, amended. \<open>generateAudio\<close> makes at most 4 attempts; between attempts it waits
  1000 ms, then 2000 ms, then 4000 ms, so what it does is always an initial part of
  \<open>retrySchedule\<close>; it returns the result of the first attempt that succeeds, stopping
  there; it throws exactly when all 4 attempts fail, after the whole schedule, and what
  it throws is then \<^verbatim>\<open>lastError || new Error(...)\<close>: the value thrown by the last attempt
  when that value is truthy, as every \<^verbatim>\<open>Error\<close> object is, and otherwise a new error with
  the message ``Failed to generate audio after retries''.
\<close>

theorem generateAudio_spec:
  "length (filter is_attempt (snd (generateAudio tts))) \<le> 4
   \<and> take (length (snd (generateAudio tts))) retrySchedule = snd (generateAudio tts)
   \<and> (\<forall>k url. k < 4 \<and> (\<forall>j < k. isl (tts j)) \<and> tts k = Inr url
         \<longrightarrow> generateAudio tts = (Inr url, take (2 * k + 1) retrySchedule))
   \<and> (isl (fst (generateAudio tts)) \<longleftrightarrow> (\<forall>j < 4. isl (tts j)))
   \<and> (\<forall>e. (\<forall>j < 3. isl (tts j)) \<and> tts 3 = Inl e
         \<longrightarrow> generateAudio tts
             = (Inl (if thrown_truthy e then e
                     else Error ''Failed to generate audio after retries''), retrySchedule))
   \<and> (\<forall>m. (\<forall>j < 3. isl (tts j)) \<and> tts 3 = Inl (Error m)
         \<longrightarrow> generateAudio tts = (tts 3, retrySchedule))"
proof -
  have four: "\<And>P. (\<forall>j < (4::nat). P j) \<longleftrightarrow> P 0 \<and> P 1 \<and> P 2 \<and> P 3"
    by (auto simp: less_Suc_eq numeral_eq_Suc)
  have three: "\<And>P. (\<forall>j < (3::nat). P j) \<longleftrightarrow> P 0 \<and> P 1 \<and> P 2"
    by (auto simp: less_Suc_eq numeral_eq_Suc)
  have a: "length (filter is_attempt (snd (generateAudio tts))) \<le> 4"
    by (simp add: generateAudio_cases retrySchedule_def split: sum.split)
  have b: "take (length (snd (generateAudio tts))) retrySchedule = snd (generateAudio tts)"
    by (simp add: generateAudio_cases retrySchedule_def split: sum.split)
  have c: "generateAudio tts = (Inr url, take (2 * k + 1) retrySchedule)"
    if "k < 4" "\<forall>j < k. isl (tts j)" "tts k = Inr url" for k url
  proof -
    from that(1) consider "k = 0" | "k = 1" | "k = 2" | "k = 3" by linarith
    then show ?thesis
    proof cases
      case 1
      have "generateAudio tts = (Inr url, [Attempt 0])"
        unfolding generateAudio_cases using that(3) 1 by simp
      then show ?thesis using 1 by (simp add: retrySchedule_def)
    next
      case 2
      then have "isl (tts 0)" using that(2) by simp
      then obtain e0 where e: "tts 0 = Inl e0" by (auto simp: isl_def)
      have "generateAudio tts = (Inr url, [Attempt 0, Delay 1000, Attempt 1])"
        unfolding generateAudio_cases using that(3) 2 e by (simp del: One_nat_def)
      then show ?thesis using 2 by (simp add: retrySchedule_def)
    next
      case 3
      then have "isl (tts 0)" "isl (tts 1)" using that(2) by simp_all
      then obtain e0 e1 where e: "tts 0 = Inl e0" "tts 1 = Inl e1" by (auto simp: isl_def)
      have "generateAudio tts
            = (Inr url, [Attempt 0, Delay 1000, Attempt 1, Delay 2000, Attempt 2])"
        unfolding generateAudio_cases using that(3) 3 e by (simp del: One_nat_def)
      then show ?thesis using 3 by (simp add: retrySchedule_def)
    next
      case 4
      then have "isl (tts 0)" "isl (tts 1)" "isl (tts 2)" using that(2) by simp_all
      then obtain e0 e1 e2 where e: "tts 0 = Inl e0" "tts 1 = Inl e1" "tts 2 = Inl e2"
        by (auto simp: isl_def)
      have "generateAudio tts = (Inr url, retrySchedule)"
        unfolding generateAudio_cases using that(3) 4 e by (simp del: One_nat_def)
      then show ?thesis using 4 by (simp add: retrySchedule_def)
    qed
  qed
  have d: "isl (fst (generateAudio tts)) \<longleftrightarrow> (\<forall>j < 4. isl (tts j))"
    unfolding four generateAudio_cases by (simp split: sum.split del: One_nat_def)
  have e: "generateAudio tts
             = (Inl (if thrown_truthy e then e
                     else Error ''Failed to generate audio after retries''), retrySchedule)"
    if "\<forall>j < 3. isl (tts j)" "tts 3 = Inl e" for e
  proof -
    from that(1) have "isl (tts 0)" "isl (tts 1)" "isl (tts 2)"
      by (simp_all add: three)
    then obtain e0 e1 e2
      where f: "tts 0 = Inl e0" "tts 1 = Inl e1" "tts 2 = Inl e2"
      by (auto simp: isl_def)
    show ?thesis unfolding generateAudio_cases using f that(2) by (simp del: One_nat_def)
  qed
  have f: "generateAudio tts = (tts 3, retrySchedule)"
    if "\<forall>j < 3. isl (tts j)" "tts 3 = Inl (Error m)" for m
    using e [OF that] that(2) by simp
  from a b c d e f show ?thesis by blast
qed

theorem generateAudio_spec_witness:
  "isl (flaky_tts 0) \<and> isl (flaky_tts 1) \<and> flaky_tts 2 = Inr ''blob:audio''
   \<and> generateAudio flaky_tts
       = (Inr ''blob:audio'', [Attempt 0, Delay 1000, Attempt 1, Delay 2000, Attempt 2])
   \<and> isl (dead_tts 0) \<and> isl (dead_tts 1) \<and> isl (dead_tts 2)
   \<and> dead_tts 3 = Inl (Error ''last failure'')
   \<and> generateAudio dead_tts
       = (Inl (Error ''last failure''),
          [Attempt 0, Delay 1000, Attempt 1, Delay 2000, Attempt 2, Delay 4000, Attempt 3])
   \<and> isl (mute_tts 0) \<and> isl (mute_tts 1) \<and> isl (mute_tts 2) \<and> mute_tts 3 = Inl Falsy
   \<and> generateAudio mute_tts
       = (Inl (Error ''Failed to generate audio after retries''),
          [Attempt 0, Delay 1000, Attempt 1, Delay 2000, Attempt 2, Delay 4000, Attempt 3])"
proof -
  have f: "(2::nat) < 4 \<and> (\<forall>j < 2. isl (flaky_tts j)) \<and> flaky_tts 2 = Inr ''blob:audio''"
    by (simp add: flaky_tts_def)
  have d: "(\<forall>j < 3. isl (dead_tts j)) \<and> dead_tts 3 = Inl (Error ''last failure'')"
    by (simp add: dead_tts_def)
  have m: "(\<forall>j < 3. isl (mute_tts j)) \<and> mute_tts 3 = Inl Falsy"
    by (simp add: mute_tts_def)
  from f generateAudio_spec [of flaky_tts]
  have 1: "generateAudio flaky_tts = (Inr ''blob:audio'', take (2 * 2 + 1) retrySchedule)"
    by blast
  from d generateAudio_spec [of dead_tts]
  have 2: "generateAudio dead_tts = (dead_tts 3, retrySchedule)" by blast
  from m generateAudio_spec [of mute_tts]
  have 3: "generateAudio mute_tts
             = (Inl (if thrown_truthy Falsy then Falsy
                     else Error ''Failed to generate audio after retries''), retrySchedule)"
    by blast
  show ?thesis using 1 2 3
    by (simp add: retrySchedule_def dead_tts_def flaky_tts_def mute_tts_def)
qed

text \<open>
  The claim as stated (after 4 failures the last error is raised) fails when the last
  attempt throws a falsy value: what is raised is a new error, not the value thrown.
\<close>

theorem generateAudio_lastError_counterexample:
  "isl (mute_tts 0) \<and> isl (mute_tts 1) \<and> isl (mute_tts 2) \<and> isl (mute_tts 3)
   \<and> fst (generateAudio mute_tts) = Inl (Error ''Failed to generate audio after retries'')
   \<and> fst (generateAudio mute_tts) \<noteq> mute_tts 3"
  by (simp add: generateAudio_cases mute_tts_def del: One_nat_def)

section \<open>Properties of the generation session controller\<close>

subsection \<open>Reachable controllers\<close>

lemmas handler_defs = startFlow_def handleStopGeneration_def afterScript_def afterFirstAudio_def
  afterChunkAudio_def afterCoverImage_def afterImageGenPromise_def backgroundLoop_def

lemma chunkScript_6 [simp]:
  "chunkScript s 6 = Some (map (nth_chunk s 6) [0 ..< (length (lines s) + 5) div 6])"
  using chunkScript_closed [of 6 s] by (simp add: add.commute)

lemma truthy_simps [simp]: "truthy None = False" "truthy (Some s) = (s \<noteq> [])"
  by (simp_all add: truthy_def)

lemma demo_lines [simp]: "length (lines (demo_script n)) = n"
  by (simp add: demo_script_def)

lemma initialState_fields [simp]:
  "library initialState = []" "status initialState = Status_idle"
  "script initialState = None" "audioSegments initialState = []"
  "error initialState = None"
  by (simp_all add: initialState_def)

lemma bounded_step: "bounded c \<Longrightarrow> bounded (step c e)"
  by (cases e)
     (auto simp: bounded_def handler_defs Let_def split: sum.splits option.splits if_splits)

lemma commit_inv_step: "bounded c \<Longrightarrow> commit_inv c \<Longrightarrow> commit_inv (step c e)"
  by (cases e)
     (auto simp: bounded_def commit_inv_def handler_defs Let_def
           split: sum.splits option.splits if_splits)

lemma image_inv_step: "bounded c \<Longrightarrow> image_inv c \<Longrightarrow> image_inv (step c e)"
  by (cases e)
     (auto simp: bounded_def image_inv_def handler_defs Let_def
           split: sum.splits option.splits if_splits)

lemma last_chunk_index: "j < N \<Longrightarrow> \<not> Suc i < N \<Longrightarrow> j < i \<or> j = (i::nat)"
  by arith

lemma audio_inv_step: "bounded c \<Longrightarrow> audio_inv c \<Longrightarrow> audio_inv (step c e)"
  by (cases e)
     (auto simp: bounded_def audio_inv_def handler_defs Let_def less_Suc_eq
           split: sum.splits option.splits if_splits
           dest: last_chunk_index)

lemma script_inv_step: "bounded c \<Longrightarrow> script_inv c \<Longrightarrow> script_inv (step c e)"
  by (cases e)
     (auto simp: bounded_def script_inv_def handler_defs Let_def
           split: sum.splits option.splits if_splits)

lemma request_inv_step: "bounded c \<Longrightarrow> request_inv c \<Longrightarrow> request_inv (step c e)"
  by (cases e)
     (auto simp: bounded_def request_inv_def handler_defs Let_def
           split: sum.splits option.splits if_splits)

lemma reach_inv_init: "reach_inv (initController s0)"
  by (simp add: reach_inv_def bounded_def commit_inv_def image_inv_def audio_inv_def
      script_inv_def request_inv_def initController_def)

lemma reach_inv_step: "reach_inv c \<Longrightarrow> reach_inv (step c e)"
  by (simp add: reach_inv_def bounded_step commit_inv_step image_inv_step audio_inv_step
      script_inv_step request_inv_step)

lemma run_Nil [simp]: "run c [] = c"
  by (simp add: run_def)

lemma run_Cons [simp]: "run c (e # es) = run (step c e) es"
  by (simp add: run_def)

lemma run_append: "run c (es @ es') = run (run c es) es'"
  by (simp add: run_def)

lemma reach_inv_run: "reach_inv c \<Longrightarrow> reach_inv (run c es)"
  by (induction es arbitrary: c) (simp_all add: reach_inv_step)

lemma reach_inv_reachable: "reach_inv (run (initController s0) es)"
  by (rule reach_inv_run [OF reach_inv_init])

lemma commit_once_step:
  "commit_inv c \<Longrightarrow> commit_once c \<Longrightarrow> commit_once (step c e)"
  by (cases e)
     (auto simp: commit_inv_def commit_once_def handler_defs Let_def count_list_0_iff
           split: sum.splits option.splits if_splits)

lemma commit_once_run:
  "reach_inv c \<Longrightarrow> commit_once c \<Longrightarrow> commit_once (run c es)"
proof (induction es arbitrary: c)
  case Nil
  then show ?case by simp
next
  case (Cons e es)
  from Cons.prems have "commit_once (step c e)"
    by (simp add: reach_inv_def commit_once_step)
  with Cons.IH [OF reach_inv_step [OF Cons.prems(1)]] show ?case by simp
qed

lemma commit_once_reachable: "commit_once (run (initController s0) es)"
  by (rule commit_once_run [OF reach_inv_init]) (simp add: commit_once_def initController_def)

subsection \<open>Results of a superseded generation\<close>

text \<open>
  A settlement that belongs to a generation other than the current one leaves the store as
  it is, with one exception: the failure of the first chunk's audio, whose handler writes
  the error without comparing the generation.
\<close>

lemma stale_settlement_dropped:
  assumes "event_flow e = Some g" and "g \<noteq> generationIdRef c"
    and "\<not> (\<exists>f x. flows c g = Some f \<and> pc f = At_firstAudio \<and> e = Audio_settled g (Inl x))"
  shows "state (step c e) = state c"
  using assms
  by (cases e)
     (auto simp: handler_defs Let_def split: sum.splits option.splits if_splits)

text \<open>
  Claim C1 (no resolution of a superseded generation mutates the store, a failure of chunk
  0 included) does not hold of the code. A session is started, its script arrives, and the
  user stops it while the audio of chunk 0 is being synthesized: \<open>generationIdRef\<close> is now 2,
  the status is idle and no error is shown. When the audio of chunk 0 of generation 1 then
  fails, the status becomes error and the message ``Failed to generate audio.'' is stored.
\<close>

theorem stale_first_chunk_failure_reaches_store:
  "generationIdRef (run (initController initialState) cancelled_events) = 2
   \<and> status (state (run (initController initialState) cancelled_events)) = Status_idle
   \<and> error (state (run (initController initialState) cancelled_events)) = None
   \<and> status (state (run (initController initialState)
                       (cancelled_events @ [Audio_settled 1 (Inl (Error ''503''))])))
       = Status_error
   \<and> error (state (run (initController initialState)
                      (cancelled_events @ [Audio_settled 1 (Inl (Error ''503''))])))
       = Some ''Failed to generate audio.''"
  by (simp add: cancelled_events_def initController_def handler_defs Let_def)

subsection \<open>The commit of an episode\<close>

lemma library_changes:
  assumes "library (state (step c e)) \<noteq> library (state c)"
  obtains g uuid now f scr where
    "e = Image_joined g uuid now" "flows c g = Some f" "pc f = At_imageGenPromise"
    "imageGen f = Image_resolved" "flow_script f = Some scr" "generationIdRef c = g"
    "step c e = afterImageGenPromise g uuid now f c"
  using assms
  by (cases e)
     (auto simp: handler_defs addToLibrary_def Let_def
           split: sum.splits option.splits if_splits)

lemma two_chunk_commit:
  "library (state (step two_chunk_run (Image_joined 1 ''uuid-1'' 1700)))
   = [\<lparr>ep_id = ''uuid-1'', ep_script = demo_script 9,
       ep_audioSegments = [''blob:a0'', ''blob:a1''], ep_createdAt = 1700,
       ep_category = ''custom'', ep_customImage = Some ''data:cover''\<rparr>]"
  "library (state two_chunk_run) = []"
  "\<exists>f. flows two_chunk_run 1 = Some f \<and> length (scriptChunks f) = 2"
  "Request_image 1 \<in> set (trace two_chunk_run)"
  by (simp_all add: two_chunk_run_def two_chunk_events_def initController_def handler_defs
      Let_def addToLibrary_def)

text \<open>
  Claim C2. In every reachable controller, \<open>addToLibrary\<close> has been called at most once for
  each generation; and a step that changes the library is the join of the current
  generation with its cover image: it puts one episode in front of the library, made of
  the invocation's script, its accumulated audio list, its category and the cover it holds
  at that moment, sets the status to complete and clears the synthesizing flag. At that
  step every chunk of the script has had its attempt settled, the cover image, if it was
  requested, has settled, and nothing was committed for the generation before.
\<close>

theorem commit_once_after_all_settled:
  assumes "c = run (initController s0) es"
  shows "count_list (trace c) (Commit g') \<le> 1
       \<and> (library (state (step c e)) \<noteq> library (state c) \<longrightarrow>
           (\<exists>g uuid now f scr.
              e = Image_joined g uuid now \<and> g = generationIdRef c
            \<and> flows c g = Some f \<and> flow_script f = Some scr
            \<and> library (state (step c e))
                = \<lparr>ep_id = uuid, ep_script = scr, ep_audioSegments = audioUrls f,
                   ep_createdAt = now, ep_category = category f,
                   ep_customImage = finalCoverUrl f\<rparr> # library (state c)
            \<and> status (state (step c e)) = Status_complete
            \<and> \<not> isGeneratingAudio (state (step c e))
            \<and> (\<forall>j < length (scriptChunks f). Settled_audio g j \<in> set (trace c))
            \<and> (Request_image g \<in> set (trace c) \<longrightarrow> Settled_image g \<in> set (trace c))
            \<and> Commit g \<notin> set (trace c)
            \<and> trace (step c e) = trace c @ [Commit g]))"
proof (intro conjI impI)
  show "count_list (trace c) (Commit g') \<le> 1"
    using commit_once_reachable [of s0 es] by (simp add: commit_once_def assms)
next
  assume changed: "library (state (step c e)) \<noteq> library (state c)"
  have inv: "reach_inv c" unfolding assms by (rule reach_inv_reachable)
  from changed obtain g uuid now f scr where
    e: "e = Image_joined g uuid now" and f: "flows c g = Some f"
    and pc: "pc f = At_imageGenPromise" and img: "imageGen f = Image_resolved"
    and scr: "flow_script f = Some scr" and g: "generationIdRef c = g"
    and st: "step c e = afterImageGenPromise g uuid now f c"
    by (rule library_changes)
  have 1: "\<forall>j < length (scriptChunks f). Settled_audio g j \<in> set (trace c)"
    using inv f pc g by (auto simp: reach_inv_def audio_inv_def)
  have 2: "Request_image g \<in> set (trace c) \<longrightarrow> Settled_image g \<in> set (trace c)"
    using inv f img by (auto simp: reach_inv_def image_inv_def)
  have 3: "Commit g \<notin> set (trace c)"
    using inv f pc by (auto simp: reach_inv_def commit_inv_def)
  have 4: "library (state (step c e))
             = \<lparr>ep_id = uuid, ep_script = scr, ep_audioSegments = audioUrls f,
                ep_createdAt = now, ep_category = category f,
                ep_customImage = finalCoverUrl f\<rparr> # library (state c)"
    "status (state (step c e)) = Status_complete"
    "\<not> isGeneratingAudio (state (step c e))"
    "trace (step c e) = trace c @ [Commit g]"
    unfolding st using scr g by (simp_all add: afterImageGenPromise_def addToLibrary_def)
  from e f scr g 1 2 3 4
  show "\<exists>g uuid now f scr.
          e = Image_joined g uuid now \<and> g = generationIdRef c
        \<and> flows c g = Some f \<and> flow_script f = Some scr
        \<and> library (state (step c e))
            = \<lparr>ep_id = uuid, ep_script = scr, ep_audioSegments = audioUrls f,
               ep_createdAt = now, ep_category = category f,
               ep_customImage = finalCoverUrl f\<rparr> # library (state c)
        \<and> status (state (step c e)) = Status_complete
        \<and> \<not> isGeneratingAudio (state (step c e))
        \<and> (\<forall>j < length (scriptChunks f). Settled_audio g j \<in> set (trace c))
        \<and> (Request_image g \<in> set (trace c) \<longrightarrow> Settled_image g \<in> set (trace c))
        \<and> Commit g \<notin> set (trace c)
        \<and> trace (step c e) = trace c @ [Commit g]"
    by blast
qed

theorem commit_once_after_all_settled_witness:
  "count_list (trace two_chunk_run) (Commit 1) \<le> 1
   \<and> library (state (step two_chunk_run (Image_joined 1 ''uuid-1'' 1700)))
       \<noteq> library (state two_chunk_run)
   \<and> library (state (step two_chunk_run (Image_joined 1 ''uuid-1'' 1700)))
       = [\<lparr>ep_id = ''uuid-1'', ep_script = demo_script 9,
           ep_audioSegments = [''blob:a0'', ''blob:a1''], ep_createdAt = 1700,
           ep_category = ''custom'', ep_customImage = Some ''data:cover''\<rparr>]
   \<and> (\<exists>f. flows two_chunk_run 1 = Some f \<and> length (scriptChunks f) = 2)
   \<and> Settled_audio 1 0 \<in> set (trace two_chunk_run)
   \<and> Settled_audio 1 1 \<in> set (trace two_chunk_run)
   \<and> Settled_image 1 \<in> set (trace two_chunk_run)
   \<and> Commit 1 \<notin> set (trace two_chunk_run)"
proof -
  have h: "library (state (step two_chunk_run (Image_joined 1 ''uuid-1'' 1700)))
           \<noteq> library (state two_chunk_run)"
    unfolding two_chunk_commit by simp
  from commit_once_after_all_settled
         [OF two_chunk_run_def, of 1 "Image_joined 1 ''uuid-1'' 1700"] h two_chunk_commit
  show ?thesis
    by (auto simp del: step.simps simp: numeral_2_eq_2 less_Suc_eq)
qed

subsection \<open>Failure of the first chunk\<close>

lemma returned_step:
  assumes "bounded c" and "returned g c"
  shows "returned g (step c e)"
    and "Request_audio g j \<in> set (trace (step c e)) \<longleftrightarrow> Request_audio g j \<in> set (trace c)"
    and "Commit g \<in> set (trace (step c e)) \<longleftrightarrow> Commit g \<in> set (trace c)"
  using assms
  by (cases e;
      auto simp: bounded_def returned_def handler_defs Let_def
           split: sum.splits option.splits if_splits)+

lemma returned_run:
  assumes "bounded c" and "returned g c"
  shows "returned g (run c es)
       \<and> (Request_audio g j \<in> set (trace (run c es)) \<longleftrightarrow> Request_audio g j \<in> set (trace c))
       \<and> (Commit g \<in> set (trace (run c es)) \<longleftrightarrow> Commit g \<in> set (trace c))"
  using assms
proof (induction es arbitrary: c)
  case Nil
  then show ?case by simp
next
  case (Cons e es)
  from Cons.prems have b: "bounded (step c e)" and r: "returned g (step c e)"
    by (simp_all add: bounded_step returned_step(1))
  from Cons.IH [OF b r] returned_step(2) [OF Cons.prems, where e = e and j = j]
    returned_step(3) [OF Cons.prems, where e = e]
  show ?case by simp
qed

text \<open>
  Claim C3. When the audio of chunk 0 fails while the invocation awaits it, the status
  becomes error with the message ``Failed to generate audio.'', the synthesizing flag is
  cleared, the library and the stored script stay as they were (in the current generation
  the stored script is the one the session produced), and whatever settles afterwards, the
  invocation requests no audio beyond chunk 0 and commits nothing.
\<close>

theorem first_chunk_failure_is_fatal:
  assumes "c = run (initController s0) es"
    and "flows c g = Some f" and "pc f = At_firstAudio"
  shows "status (state (step c (Audio_settled g (Inl err)))) = Status_error
       \<and> error (state (step c (Audio_settled g (Inl err)))) = Some ''Failed to generate audio.''
       \<and> \<not> isGeneratingAudio (state (step c (Audio_settled g (Inl err))))
       \<and> library (state (step c (Audio_settled g (Inl err)))) = library (state c)
       \<and> script (state (step c (Audio_settled g (Inl err)))) = script (state c)
       \<and> (g = generationIdRef c \<longrightarrow>
            flow_script f \<noteq> None
          \<and> script (state (step c (Audio_settled g (Inl err)))) = flow_script f)
       \<and> (\<forall>es' j. Request_audio g j \<in> set (trace (run (step c (Audio_settled g (Inl err))) es'))
                  \<longrightarrow> j = 0)
       \<and> (\<forall>es'. Commit g \<notin> set (trace (run (step c (Audio_settled g (Inl err))) es')))"
proof -
  let ?c' = "step c (Audio_settled g (Inl err))"
  have inv: "reach_inv c" unfolding assms(1) by (rule reach_inv_reachable)
  have st: "?c' = afterFirstAudio g f (Inl err) c" using assms(2,3) by simp
  have 1: "status (state ?c') = Status_error"
    "error (state ?c') = Some ''Failed to generate audio.''"
    "\<not> isGeneratingAudio (state ?c')" "library (state ?c') = library (state c)"
    "script (state ?c') = script (state c)"
    "trace ?c' = trace c @ [Settled_audio g 0]"
    unfolding st by (simp_all add: afterFirstAudio_def)
  have 2: "g = generationIdRef c \<longrightarrow> flow_script f \<noteq> None \<and> script (state ?c') = flow_script f"
    using inv assms(2,3) 1(5) by (auto simp: reach_inv_def script_inv_def)
  have "bounded c" using inv by (simp add: reach_inv_def)
  then have b: "bounded ?c'" by (rule bounded_step)
  have r: "returned g ?c'" unfolding st by (simp add: returned_def afterFirstAudio_def)
  have req: "Request_audio g j \<in> set (trace c) \<longrightarrow> j = 0" for j
    using inv assms(2,3) by (auto simp: reach_inv_def request_inv_def)
  have com: "Commit g \<notin> set (trace c)"
    using inv assms(2,3) by (auto simp: reach_inv_def commit_inv_def)
  have 3: "Request_audio g j \<in> set (trace (run ?c' es')) \<longrightarrow> j = 0" for es' j
    using returned_run [OF b r, where j = j and es = es'] req [of j] 1(6) by simp
  have 4: "Commit g \<notin> set (trace (run ?c' es'))" for es'
    using returned_run [OF b r, where j = 0 and es = es'] com 1(6) by simp
  from 1 2 3 4 show ?thesis by blast
qed

theorem first_chunk_failure_is_fatal_witness:
  "status (state (step first_chunk_run (Audio_settled 1 (Inl (Error ''503''))))) = Status_error
   \<and> library (state (step first_chunk_run (Audio_settled 1 (Inl (Error ''503''))))) = []
   \<and> script (state (step first_chunk_run (Audio_settled 1 (Inl (Error ''503'')))))
       = Some (demo_script 9)
   \<and> Request_audio 1 1
       \<notin> set (trace (run (step first_chunk_run (Audio_settled 1 (Inl (Error ''503''))))
                        after_failure))
   \<and> Commit 1
       \<notin> set (trace (run (step first_chunk_run (Audio_settled 1 (Inl (Error ''503''))))
                        after_failure))"
proof -
  have ev: "\<exists>f. flows first_chunk_run 1 = Some f \<and> pc f = At_firstAudio"
    "library (state first_chunk_run) = []"
    "script (state first_chunk_run) = Some (demo_script 9)"
    by (simp_all add: first_chunk_run_def first_chunk_events_def initController_def
        handler_defs Let_def)
  then obtain f where f: "flows first_chunk_run 1 = Some f" "pc f = At_firstAudio" by blast
  from first_chunk_failure_is_fatal [OF first_chunk_run_def f, of "Error ''503''"] ev(2,3)
  show ?thesis by auto
qed

subsection \<open>Sequential synthesis and skipped chunks\<close>

lemma pipelined_append: "pipelined tr \<Longrightarrow> pipelined new \<Longrightarrow> pipelined (tr @ new)"
  unfolding pipelined_def
proof (intro allI impI)
  fix k g j
  assume tr: "\<forall>k g j. k < length tr \<and> tr ! k = Request_audio g (Suc j) \<longrightarrow>
                0 < k \<and> tr ! (k - 1) = Settled_audio g j"
    and new: "\<forall>k g j. k < length new \<and> new ! k = Request_audio g (Suc j) \<longrightarrow>
                0 < k \<and> new ! (k - 1) = Settled_audio g j"
    and k: "k < length (tr @ new) \<and> (tr @ new) ! k = Request_audio g (Suc j)"
  show "0 < k \<and> (tr @ new) ! (k - 1) = Settled_audio g j"
  proof (cases "k < length tr")
    case True
    with k have "tr ! k = Request_audio g (Suc j)" by (simp add: nth_append)
    with tr True have "0 < k" "tr ! (k - 1) = Settled_audio g j" by blast+
    moreover from True have "k - 1 < length tr" by simp
    ultimately show ?thesis by (simp add: nth_append)
  next
    case False
    define k' where "k' = k - length tr"
    from False k have "k' < length new" unfolding k'_def by auto
    moreover from False k have "new ! k' = Request_audio g (Suc j)"
      unfolding k'_def by (auto simp: nth_append)
    ultimately have k': "k' < length new" "new ! k' = Request_audio g (Suc j)" .
    with new have "0 < k'" "new ! (k' - 1) = Settled_audio g j" by blast+
    moreover from this(1) have "\<not> k - 1 < length tr" "k - 1 - length tr = k' - 1" "0 < k"
      unfolding k'_def by arith+
    ultimately show ?thesis by (simp add: nth_append)
  qed
qed

lemma pipelined_small [simp]:
  "pipelined []"
  "pipelined [a] \<longleftrightarrow> (\<forall>g j. a \<noteq> Request_audio g (Suc j))"
  "pipelined [a, b] \<longleftrightarrow> (\<forall>g j. a \<noteq> Request_audio g (Suc j))
                        \<and> (\<forall>g j. b = Request_audio g (Suc j) \<longrightarrow> a = Settled_audio g j)"
  "pipelined [a, b, d] \<longleftrightarrow> (\<forall>g j. a \<noteq> Request_audio g (Suc j))
                        \<and> (\<forall>g j. b = Request_audio g (Suc j) \<longrightarrow> a = Settled_audio g j)
                        \<and> (\<forall>g j. d = Request_audio g (Suc j) \<longrightarrow> b = Settled_audio g j)"
  by (auto simp: pipelined_def less_Suc_eq nth_Cons')

lemma trace_step:
  "\<exists>new. trace (step c e) = trace c @ new \<and> pipelined new"
  by (cases e)
     (auto simp: handler_defs Let_def split: sum.splits option.splits if_splits)

lemma pipelined_step: "pipelined (trace c) \<Longrightarrow> pipelined (trace (step c e))"
  using trace_step [of c e] by (auto intro: pipelined_append)

lemma pipelined_run: "pipelined (trace c) \<Longrightarrow> pipelined (trace (run c es))"
  by (induction es arbitrary: c) (simp_all add: pipelined_step)

lemma pipelined_reachable: "pipelined (trace (run (initController s0) es))"
  by (rule pipelined_run) (simp add: initController_def)

lemma audio_log_Suc:
  "i < N \<Longrightarrow> audio_log g (Suc i) N
     = audio_log g i N @ Settled_audio g i # (if Suc i < N then [Request_audio g (Suc i)] else [])"
  by (simp add: audio_log_def)

lemma at_chunk_image [simp]:
  "at_chunk i N (f\<lparr>imageGen := x\<rparr>) = at_chunk i N f"
  "at_chunk i N (f\<lparr>finalCoverUrl := y\<rparr>) = at_chunk i N f"
  by (simp_all add: at_chunk_def)

lemma sessE:
  assumes "sess g scr chunks cat lib base i urls c"
  obtains f where "flows c g = Some f" "flow_script f = Some scr" "scriptChunks f = chunks"
    "category f = cat" "audioUrls f = urls" "imageGen f \<noteq> Image_unstarted"
    "at_chunk i (length chunks) f" "generationIdRef c = g" "library (state c) = lib"
    "audioSegments (state c) = urls" "script (state c) = Some scr"
    "filter (audio_of g) (trace c) = base @ audio_log g i (length chunks)"
  using assms unfolding sess_def by blast

lemma sess_audio:
  assumes "sess g scr chunks cat lib base i urls c" and "i < length chunks"
    and "i = 0 \<longrightarrow> \<not> isl r"
  shows "sess g scr chunks cat lib base (Suc i) (urls @ successes [r])
           (step c (Audio_settled g r))"
proof -
  from assms(1) obtain f where f: "flows c g = Some f" "flow_script f = Some scr"
    "scriptChunks f = chunks" "category f = cat" "audioUrls f = urls"
    "imageGen f \<noteq> Image_unstarted" "at_chunk i (length chunks) f"
    and c: "generationIdRef c = g" "library (state c) = lib" "audioSegments (state c) = urls"
    "script (state c) = Some scr"
    "filter (audio_of g) (trace c) = base @ audio_log g i (length chunks)"
    by (rule sessE)
  show ?thesis
  proof (cases "i = 0")
    case True
    with assms(3) obtain url where r: "r = Inr url" by (cases r) auto
    from True assms(2) f(7) have pc: "pc f = At_firstAudio" by (simp add: at_chunk_def)
    have st: "step c (Audio_settled g r) = afterFirstAudio g f (Inr url) c"
      using f(1) pc r by simp
    show ?thesis
      unfolding st sess_def using f c True assms(2) r
      by (simp add: afterFirstAudio_def backgroundLoop_def Let_def audio_log_Suc at_chunk_def)
  next
    case False
    with assms(2) f(7) have pc: "pc f = At_chunkAudio" "loop_i f = i"
      by (simp_all add: at_chunk_def)
    have st: "step c (Audio_settled g r) = afterChunkAudio g f r c"
      using f(1) pc by simp
    show ?thesis
      unfolding st sess_def using f c pc False assms(2)
      by (cases r)
         (simp_all add: afterChunkAudio_def backgroundLoop_def Let_def audio_log_Suc
            at_chunk_def)
  qed
qed

lemma stale_event_frame:
  assumes "event_flow e = Some h" and "h \<noteq> generationIdRef c"
  shows "generationIdRef (step c e) = generationIdRef c"
    and "library (state (step c e)) = library (state c)"
    and "audioSegments (state (step c e)) = audioSegments (state c)"
    and "script (state (step c e)) = script (state c)"
    and "g \<noteq> h \<Longrightarrow> flows (step c e) g = flows c g"
    and "g \<noteq> h \<Longrightarrow> filter (audio_of g) (trace (step c e)) = filter (audio_of g) (trace c)"
  using assms
  by (cases e;
      auto simp: handler_defs Let_def split: sum.splits option.splits if_splits)+

lemma sess_stale_event:
  assumes "sess g scr chunks cat lib base i urls c"
    and "event_flow e = Some h" and "h \<noteq> g"
  shows "sess g scr chunks cat lib base i urls (step c e)"
proof -
  from assms(1) have g: "generationIdRef c = g" by (simp add: sess_def)
  with assms(3) have h: "h \<noteq> generationIdRef c" by simp
  have gh: "g \<noteq> h" using assms(3) by simp
  show ?thesis
    using assms(1)
    unfolding sess_def stale_event_frame(1-4) [OF assms(2) h]
      stale_event_frame(5,6) [OF assms(2) h gh]
    by simp
qed

lemma sess_own_image:
  assumes "sess g scr chunks cat lib base i urls c"
  shows "sess g scr chunks cat lib base i urls (step c (Image_settled g r))"
    and "img_done g (step c (Image_settled g r))"
proof -
  from assms obtain f where f: "flows c g = Some f" "flow_script f = Some scr"
    "scriptChunks f = chunks" "category f = cat" "audioUrls f = urls"
    "imageGen f \<noteq> Image_unstarted" "at_chunk i (length chunks) f"
    and c: "generationIdRef c = g" "library (state c) = lib" "audioSegments (state c) = urls"
    "script (state c) = Some scr"
    "filter (audio_of g) (trace c) = base @ audio_log g i (length chunks)"
    by (rule sessE)
  have resolved: "imageGen f = Image_resolved" if "imageGen f \<noteq> At_generateCoverImage"
    using that f(6) by (cases "imageGen f") simp_all
  show "sess g scr chunks cat lib base i urls (step c (Image_settled g r))"
  proof (cases "imageGen f = At_generateCoverImage")
    case True
    have st: "step c (Image_settled g r) = afterCoverImage g f r c"
      using f(1) True by simp
    show ?thesis
      unfolding st sess_def using f c
      by (cases r) (simp_all add: afterCoverImage_def Let_def)
  next
    case False
    then have st: "step c (Image_settled g r) = c" using f(1) by simp
    show ?thesis unfolding st by (rule assms)
  qed
  show "img_done g (step c (Image_settled g r))"
  proof (cases "imageGen f = At_generateCoverImage")
    case True
    have st: "step c (Image_settled g r) = afterCoverImage g f r c"
      using f(1) True by simp
    show ?thesis
      unfolding st img_done_def
      by (cases r) (simp_all add: afterCoverImage_def Let_def)
  next
    case False
    then have st: "step c (Image_settled g r) = c" using f(1) by simp
    show ?thesis
      unfolding st img_done_def using f(1) resolved [OF False] by simp
  qed
qed

lemma sess_own_script:
  assumes "sess g scr chunks cat lib base i urls c"
  shows "step c (Script_settled g r) = c"
proof -
  from assms obtain f where "flows c g = Some f" "at_chunk i (length chunks) f"
    by (rule sessE)
  then show ?thesis by (auto simp: at_chunk_def split: if_splits)
qed

lemma sess_other:
  assumes "sess g scr chunks cat lib base i urls c" and "keeps_epoch e"
    and "\<forall>r. e \<noteq> Audio_settled g r" and "\<forall>u n. e \<noteq> Image_joined g u n"
  shows "sess g scr chunks cat lib base i urls (step c e)"
proof (cases "event_flow e = Some g")
  case True
  with assms(3,4) consider r where "e = Script_settled g r" | r where "e = Image_settled g r"
    by (cases e) auto
  then show ?thesis
    using assms(1) by cases (simp_all only: sess_own_script sess_own_image(1))
next
  case False
  with assms(2) obtain h where "event_flow e = Some h" "h \<noteq> g" by (cases e) auto
  with assms(1) show ?thesis by (rule sess_stale_event)
qed

lemma img_done_step:
  assumes "sess g scr chunks cat lib base i urls c" and "img_done g c" and "keeps_epoch e"
    and "\<forall>u n. e \<noteq> Image_joined g u n"
  shows "img_done g (step c e)"
proof (cases "event_flow e = Some g")
  case True
  from assms(1) obtain f where f: "flows c g = Some f" "at_chunk i (length chunks) f"
    "generationIdRef c = g"
    by (rule sessE)
  from assms(2) f(1) have im: "imageGen f = Image_resolved" by (simp add: img_done_def)
  from True assms(4) consider r where "e = Script_settled g r" | r where "e = Image_settled g r"
    | r where "e = Audio_settled g r"
    by (cases e) auto
  then show ?thesis
  proof cases
    case 1
    then show ?thesis using assms(2) sess_own_script [OF assms(1)] by simp
  next
    case 2
    then show ?thesis using sess_own_image(2) [OF assms(1)] by simp
  next
    case 3
    show ?thesis
      unfolding 3 img_done_def using f im
      by (cases r)
         (auto simp: afterFirstAudio_def afterChunkAudio_def backgroundLoop_def Let_def)
  qed
next
  case False
  with assms(3) obtain h where h: "event_flow e = Some h" "h \<noteq> g" by (cases e) auto
  from assms(1) have g: "generationIdRef c = g" by (simp add: sess_def)
  with h have "h \<noteq> generationIdRef c" "g \<noteq> h" by simp_all
  from stale_event_frame(5) [OF h(1) this] assms(2) show ?thesis
    by (simp add: img_done_def)
qed

lemma successes_append: "successes (rs @ rs') = successes rs @ successes rs'"
  by (induction rs rule: successes.induct) simp_all

lemma successes_filter: "map Inr (successes rs) = filter (\<lambda>r. \<not> isl r) rs"
  by (induction rs rule: successes.induct) simp_all

lemma length_successes: "length (successes rs) \<le> length rs"
  by (induction rs rule: successes.induct) simp_all

lemma successes_shorter: "\<exists>r \<in> set rs. isl r \<Longrightarrow> length (successes rs) < length rs"
proof (induction rs rule: successes.induct)
  case 1
  then show ?case by simp
next
  case (2 url rs)
  then show ?case by simp
next
  case (3 e rs)
  show ?case using length_successes [of rs] by simp
qed

lemma mid_event_iff:
  "mid_event g e \<longleftrightarrow> keeps_epoch e \<and> (\<forall>u n. e \<noteq> Image_joined g u n)"
  by (cases e) auto

lemma sess_run:
  assumes "sess g scr chunks cat lib base i urls c"
    and "\<forall>e \<in> set es. mid_event g e"
    and "i + length (audio_results g es) \<le> length chunks"
    and "i = 0 \<longrightarrow> (\<forall>r \<in> set (take 1 (audio_results g es)). \<not> isl r)"
  shows "sess g scr chunks cat lib base (i + length (audio_results g es))
           (urls @ successes (audio_results g es)) (run c es)
       \<and> (img_done g c \<or> (\<exists>r. Image_settled g r \<in> set es) \<longrightarrow> img_done g (run c es))"
  using assms
proof (induction es arbitrary: c i urls)
  case Nil
  then show ?case by simp
next
  case (Cons e es)
  from Cons.prems(2) have mid: "mid_event g e" and rest: "\<forall>e \<in> set es. mid_event g e"
    by simp_all
  show ?case
  proof (cases "\<exists>r. e = Audio_settled g r")
    case True
    then obtain r where e: "e = Audio_settled g r" by blast
    have ar: "audio_results g (e # es) = r # audio_results g es" by (simp add: e)
    from Cons.prems(3) have i: "i < length chunks"
      and le: "Suc i + length (audio_results g es) \<le> length chunks"
      by (simp_all add: ar)
    from Cons.prems(4) have ok: "i = 0 \<longrightarrow> \<not> isl r" by (simp add: ar)
    have s1: "sess g scr chunks cat lib base (Suc i) (urls @ successes [r]) (step c e)"
      unfolding e by (rule sess_audio [OF Cons.prems(1) i ok])
    have d1: "img_done g c \<longrightarrow> img_done g (step c e)"
      using img_done_step [OF Cons.prems(1)] mid by (simp add: mid_event_iff)
    from Cons.IH [OF s1 rest le] 
    have "sess g scr chunks cat lib base (Suc i + length (audio_results g es))
           ((urls @ successes [r]) @ successes (audio_results g es)) (run (step c e) es)
       \<and> (img_done g (step c e) \<or> (\<exists>r. Image_settled g r \<in> set es)
            \<longrightarrow> img_done g (run (step c e) es))"
      by simp
    then show ?thesis
      using d1 by (auto simp: ar e successes_append [of "[r]", symmetric])
  next
    case False
    then have ar: "audio_results g (e # es) = audio_results g es"
      by (cases e) auto
    from mid False have s1: "sess g scr chunks cat lib base i urls (step c e)"
      by (intro sess_other [OF Cons.prems(1)]) (auto simp: mid_event_iff)
    have d1: "img_done g c \<or> (\<exists>r. e = Image_settled g r) \<longrightarrow> img_done g (step c e)"
      using img_done_step [OF Cons.prems(1)] sess_own_image(2) [OF Cons.prems(1)] mid
      by (auto simp: mid_event_iff)
    from Cons.prems(3,4) have le: "i + length (audio_results g es) \<le> length chunks"
      and ok: "i = 0 \<longrightarrow> (\<forall>r \<in> set (take 1 (audio_results g es)). \<not> isl r)"
      by (simp_all add: ar)
    from Cons.IH [OF s1 rest le ok] d1 show ?thesis
      by (auto simp: ar)
  qed
qed

lemma sess_start:
  assumes "g = generationIdRef c + 1"
    and "chunks = map (nth_chunk scr 6) [0 ..< (length (lines scr) + 5) div 6]"
  shows "sess g scr chunks cat (library (state c)) (filter (audio_of g) (trace c)) 0 []
           (run c [Start cat img sgi, Script_settled g (Inr scr)])"
    and "img_done g (run c [Start cat img sgi, Script_settled g (Inr scr)])
           \<longleftrightarrow> \<not> (sgi \<and> \<not> truthy img)"
  using assms
  by (simp_all add: sess_def img_done_def startFlow_def afterScript_def backgroundLoop_def Let_def
      audio_log_def at_chunk_def)

lemma sess_join:
  assumes "sess g scr chunks cat lib base (length chunks) urls c" and "img_done g c"
  shows "status (state (step c (Image_joined g uuid now))) = Status_complete"
    and "\<not> isGeneratingAudio (state (step c (Image_joined g uuid now)))"
    and "audioSegments (state (step c (Image_joined g uuid now))) = urls"
    and "\<exists>ep. library (state (step c (Image_joined g uuid now))) = ep # lib
            \<and> ep_id ep = uuid \<and> ep_script ep = scr \<and> ep_audioSegments ep = urls
            \<and> ep_category ep = cat \<and> ep_createdAt ep = now"
    and "filter (audio_of g) (trace (step c (Image_joined g uuid now)))
           = base @ audio_log g (length chunks) (length chunks)"
    and "returned g (step c (Image_joined g uuid now))"
    and "Commit g \<in> set (trace (step c (Image_joined g uuid now)))"
proof -
  from assms(1) obtain f where f: "flows c g = Some f" "flow_script f = Some scr"
    "scriptChunks f = chunks" "category f = cat" "audioUrls f = urls"
    "imageGen f \<noteq> Image_unstarted" "at_chunk (length chunks) (length chunks) f"
    and c: "generationIdRef c = g" "library (state c) = lib" "audioSegments (state c) = urls"
    "script (state c) = Some scr"
    "filter (audio_of g) (trace c) = base @ audio_log g (length chunks) (length chunks)"
    by (rule sessE)
  from assms(2) f(1) have im: "imageGen f = Image_resolved" by (simp add: img_done_def)
  from f(7) have pc: "pc f = At_imageGenPromise" by (simp add: at_chunk_def)
  have st: "step c (Image_joined g uuid now) = afterImageGenPromise g uuid now f c"
    using f(1) pc im by simp
  show "status (state (step c (Image_joined g uuid now))) = Status_complete"
    and "\<not> isGeneratingAudio (state (step c (Image_joined g uuid now)))"
    and "audioSegments (state (step c (Image_joined g uuid now))) = urls"
    and "\<exists>ep. library (state (step c (Image_joined g uuid now))) = ep # lib
            \<and> ep_id ep = uuid \<and> ep_script ep = scr \<and> ep_audioSegments ep = urls
            \<and> ep_category ep = cat \<and> ep_createdAt ep = now"
    and "filter (audio_of g) (trace (step c (Image_joined g uuid now)))
           = base @ audio_log g (length chunks) (length chunks)"
    and "returned g (step c (Image_joined g uuid now))"
    and "Commit g \<in> set (trace (step c (Image_joined g uuid now)))"
    unfolding st using f c
    by (simp_all add: afterImageGenPromise_def addToLibrary_def returned_def)
qed

lemma audio_of_flow: "audio_of g a \<Longrightarrow> action_flow a = g"
  by (cases a) simp_all

lemma no_audio_yet:
  assumes "bounded c" and "generationIdRef c < g"
  shows "filter (audio_of g) (trace c) = []"
proof -
  have "\<not> audio_of g a" if "a \<in> set (trace c)" for a
  proof
    assume "audio_of g a"
    then have "action_flow a = g" by (rule audio_of_flow)
    moreover from assms(1) that have "action_flow a \<le> generationIdRef c"
      by (simp add: bounded_def)
    ultimately show False using assms(2) by simp
  qed
  then show ?thesis by (simp add: filter_empty_conv)
qed

lemma audio_log_full:
  "audio_log g N N = concat (map (\<lambda>j. [Request_audio g j, Settled_audio g j]) [0 ..< N])"
  by (simp add: audio_log_def)

text \<open>
  A session from its start to the join with the cover image: the script arrives, the
  epoch stays current, each of the script's chunks gets one outcome, the first of them a
  success, and the cover image, if it was requested, settles before the join.
\<close>

lemma session_completes:
  assumes reach: "c = run (initController s0) es0"
    and g: "g = generationIdRef c + 1"
    and chunks: "chunks = map (nth_chunk scr 6) [0 ..< (length (lines scr) + 5) div 6]"
    and mid: "\<forall>e \<in> set es. mid_event g e"
    and count: "length (audio_results g es) = length chunks"
    and first: "\<forall>r \<in> set (take 1 (audio_results g es)). \<not> isl r"
    and image: "sgi \<and> \<not> truthy img \<longrightarrow> (\<exists>r. Image_settled g r \<in> set es)"
    and c': "c' = run c ([Start cat img sgi, Script_settled g (Inr scr)] @ es
                        @ [Image_joined g uuid now])"
  shows "status (state c') = Status_complete"
    and "\<not> isGeneratingAudio (state c')"
    and "audioSegments (state c') = successes (audio_results g es)"
    and "\<exists>ep. library (state c') = ep # library (state c)
            \<and> ep_id ep = uuid \<and> ep_script ep = scr
            \<and> ep_audioSegments ep = successes (audio_results g es)
            \<and> ep_category ep = cat \<and> ep_createdAt ep = now"
    and "filter (audio_of g) (trace c')
           = concat (map (\<lambda>j. [Request_audio g j, Settled_audio g j]) [0 ..< length chunks])"
    and "returned g c'" and "Commit g \<in> set (trace c')" and "reach_inv c'"
proof -
  let ?c2 = "run c [Start cat img sgi, Script_settled g (Inr scr)]"
  let ?c3 = "run ?c2 es"
  have inv: "reach_inv c" unfolding reach by (rule reach_inv_reachable)
  then have "bounded c" by (simp add: reach_inv_def)
  then have base: "filter (audio_of g) (trace c) = []"
    by (rule no_audio_yet) (simp add: g)
  have s2: "sess g scr chunks cat (library (state c)) [] 0 [] ?c2"
    using sess_start(1) [OF g chunks, of cat img sgi] by (simp only: base)
  have d2: "img_done g ?c2 \<longleftrightarrow> \<not> (sgi \<and> \<not> truthy img)"
    by (rule sess_start(2) [OF g chunks])
  from sess_run [OF s2 mid] count first
  have s3: "sess g scr chunks cat (library (state c)) [] (length chunks)
              (successes (audio_results g es)) ?c3"
    and d3: "img_done g ?c2 \<or> (\<exists>r. Image_settled g r \<in> set es) \<longrightarrow> img_done g ?c3"
    by simp_all
  from d2 d3 image have dn: "img_done g ?c3" by blast
  have c'_eq: "c' = step ?c3 (Image_joined g uuid now)"
    unfolding c' by (simp add: run_append)
  show "status (state c') = Status_complete"
    and "\<not> isGeneratingAudio (state c')"
    and "audioSegments (state c') = successes (audio_results g es)"
    and "\<exists>ep. library (state c') = ep # library (state c)
            \<and> ep_id ep = uuid \<and> ep_script ep = scr
            \<and> ep_audioSegments ep = successes (audio_results g es)
            \<and> ep_category ep = cat \<and> ep_createdAt ep = now"
    and "returned g c'" and "Commit g \<in> set (trace c')"
    unfolding c'_eq by (rule sess_join [OF s3 dn])+
  show "filter (audio_of g) (trace c')
           = concat (map (\<lambda>j. [Request_audio g j, Settled_audio g j]) [0 ..< length chunks])"
    unfolding c'_eq using sess_join(5) [OF s3 dn, of uuid now] by (simp add: audio_log_full)
  show "reach_inv c'" unfolding c' by (rule reach_inv_run [OF inv])
qed

text \<open>
  Claim C4. In such a session of \<open>N\<close> chunks whose first chunk succeeded with \<open>url0\<close> and
  whose later chunks had the outcomes \<open>rs\<close>: the status is complete, the audio list of the
  store and of the committed episode is \<open>url0\<close> followed by the successes among \<open>rs\<close> in
  their order, which is shorter than \<open>N\<close> as soon as one chunk failed; the session's audio
  history is request 0, settlement 0, request 1, settlement 1, and so on up to chunk
  \<open>N - 1\<close>, failed chunks included; and in the whole history each request for a chunk
  \<open>j + 1\<close> comes right after the settlement of chunk \<open>j\<close>.
\<close>

theorem later_chunk_failures_are_skipped:
  assumes "c = run (initController s0) es0"
    and "g = generationIdRef c + 1"
    and "N = (length (lines scr) + 5) div 6"
    and "\<forall>e \<in> set es. mid_event g e"
    and "audio_results g es = Inr url0 # rs" and "length rs + 1 = N"
    and "sgi \<and> \<not> truthy img \<longrightarrow> (\<exists>r. Image_settled g r \<in> set es)"
    and "c' = run c ([Start cat img sgi, Script_settled g (Inr scr)] @ es
                     @ [Image_joined g uuid now])"
  shows "status (state c') = Status_complete \<and> \<not> isGeneratingAudio (state c')
       \<and> audioSegments (state c') = url0 # successes rs
       \<and> (\<exists>ep. library (state c') = ep # library (state c)
              \<and> ep_id ep = uuid \<and> ep_script ep = scr \<and> ep_category ep = cat
              \<and> ep_audioSegments ep = url0 # successes rs)
       \<and> map Inr (successes rs) = filter (\<lambda>r. \<not> isl r) rs
       \<and> ((\<exists>r \<in> set rs. isl r) \<longrightarrow> length (url0 # successes rs) < N)
       \<and> filter (audio_of g) (trace c')
           = concat (map (\<lambda>j. [Request_audio g j, Settled_audio g j]) [0 ..< N])
       \<and> pipelined (trace c')"
proof -
  define chunks where "chunks = map (nth_chunk scr 6) [0 ..< (length (lines scr) + 5) div 6]"
  have len: "length (audio_results g es) = length chunks"
    using assms(3,5,6) by (simp add: chunks_def)
  have first: "\<forall>r \<in> set (take 1 (audio_results g es)). \<not> isl r"
    by (simp add: assms(5))
  have succ: "successes (audio_results g es) = url0 # successes rs"
    by (simp add: assms(5))
  have N: "length chunks = N" by (simp add: chunks_def assms(3))
  note fin = session_completes [OF assms(1,2) chunks_def assms(4) len first assms(7,8)]
  have "pipelined (trace c')"
    unfolding assms(8) assms(1) run_append [symmetric] by (rule pipelined_reachable)
  moreover have "(\<exists>r \<in> set rs. isl r) \<longrightarrow> length (url0 # successes rs) < N"
    using successes_shorter [of rs] assms(6) by auto
  ultimately show ?thesis
    using fin(1-5) by (simp only: succ N successes_filter) auto
qed

theorem later_chunk_failures_are_skipped_witness:
  "audio_results 1 three_chunk_results = [Inr ''blob:a0'', Inl NonError, Inr ''blob:a2'']
   \<and> status (state three_chunk_run) = Status_complete
   \<and> audioSegments (state three_chunk_run) = [''blob:a0'', ''blob:a2'']
   \<and> map ep_audioSegments (library (state three_chunk_run)) = [[''blob:a0'', ''blob:a2'']]
   \<and> filter (audio_of 1) (trace three_chunk_run)
       = [Request_audio 1 0, Settled_audio 1 0, Request_audio 1 1, Settled_audio 1 1,
          Request_audio 1 2, Settled_audio 1 2]
   \<and> pipelined (trace three_chunk_run)"
proof -
  have c: "initController initialState = run (initController initialState) []" by simp
  have g: "(1::nat) = generationIdRef (initController initialState) + 1"
    by (simp add: initController_def)
  have N: "(3::nat) = (length (lines (demo_script 13)) + 5) div 6" by simp
  have mid: "\<forall>e \<in> set three_chunk_results. mid_event 1 e"
    by (simp add: three_chunk_results_def)
  have rs: "audio_results 1 three_chunk_results = Inr ''blob:a0'' # [Inl NonError, Inr ''blob:a2'']"
    by (simp add: three_chunk_results_def)
  have len: "length [Inl NonError, Inr ''blob:a2'' :: thrown + string] + 1 = 3" by simp
  have img: "True \<and> \<not> truthy None \<longrightarrow> (\<exists>r. Image_settled 1 r \<in> set three_chunk_results)"
    by (simp add: three_chunk_results_def)
  have lib: "library (state (initController initialState)) = []"
    by (simp add: initController_def)
  from later_chunk_failures_are_skipped [OF c g N mid rs len img three_chunk_run_def] rs lib
  show ?thesis
    by (auto simp: upt_rec numeral_3_eq_3)
qed

subsection \<open>A script without lines\<close>

text \<open>
  Claim C10. When the script has no lines, \<open>chunkScript\<close> returns no chunk, and a session
  whose epoch stays current up to the join with the cover image ends with status complete
  and one new episode whose audio list is empty; no audio of that generation is ever
  requested, and the generation is committed exactly once, whatever happens afterwards.
\<close>

theorem empty_script_commits_without_audio:
  assumes "c = run (initController s0) es0"
    and "g = generationIdRef c + 1"
    and "lines scr = []"
    and "\<forall>e \<in> set es. mid_event g e"
    and "audio_results g es = []"
    and "sgi \<and> \<not> truthy img \<longrightarrow> (\<exists>r. Image_settled g r \<in> set es)"
    and "c' = run c ([Start cat img sgi, Script_settled g (Inr scr)] @ es
                     @ [Image_joined g uuid now])"
  shows "chunkScript scr 6 = Some []
       \<and> status (state c') = Status_complete \<and> \<not> isGeneratingAudio (state c')
       \<and> audioSegments (state c') = []
       \<and> (\<exists>ep. library (state c') = ep # library (state c)
              \<and> ep_id ep = uuid \<and> ep_script ep = scr \<and> ep_category ep = cat
              \<and> ep_audioSegments ep = [])
       \<and> (\<forall>es' j. Request_audio g j \<notin> set (trace (run c' es')))
       \<and> (\<forall>es'. count_list (trace (run c' es')) (Commit g) = 1)"
proof -
  define chunks where "chunks = map (nth_chunk scr 6) [0 ..< (length (lines scr) + 5) div 6]"
  have empty: "chunks = []" by (simp add: chunks_def assms(3))
  have len: "length (audio_results g es) = length chunks" by (simp add: assms(5) empty)
  have first: "\<forall>r \<in> set (take 1 (audio_results g es)). \<not> isl r" by (simp add: assms(5))
  note fin = session_completes [OF assms(1,2) chunks_def assms(4) len first assms(6,7)]
  have b: "bounded c'" using fin(8) by (simp add: reach_inv_def)
  have none: "Request_audio g j \<notin> set (trace c')" for j
  proof
    assume "Request_audio g j \<in> set (trace c')"
    then have "Request_audio g j \<in> set (filter (audio_of g) (trace c'))" by simp
    then show False unfolding fin(5) by (simp add: empty)
  qed
  have 1: "Request_audio g j \<notin> set (trace (run c' es'))" for es' j
    using returned_run [OF b fin(6), where j = j and es = es'] none [of j] by simp
  have "Commit g \<in> set (trace (run c' es'))" for es'
    using returned_run [OF b fin(6), where j = 0 and es = es'] fin(7) by simp
  then have "count_list (trace (run c' es')) (Commit g) \<noteq> 0" for es'
    by (simp add: count_list_0_iff)
  moreover have "count_list (trace (run c' es')) (Commit g) \<le> 1" for es'
    using commit_once_reachable [of s0 "es0 @ [Start cat img sgi, Script_settled g (Inr scr)] @ es
                        @ [Image_joined g uuid now] @ es'"]
    unfolding assms(7) assms(1) by (simp add: commit_once_def run_append)
  ultimately have 2: "count_list (trace (run c' es')) (Commit g) = 1" for es'
    by (metis le_antisym less_one not_less)
  have 3: "chunkScript scr 6 = Some []" using empty by (simp add: chunks_def)
  from fin(1-4) 1 2 3 show ?thesis by (auto simp: assms(5))
qed

theorem empty_script_commits_without_audio_witness:
  "lines (demo_script 0) = []
   \<and> status (state empty_script_run) = Status_complete
   \<and> map ep_audioSegments (library (state empty_script_run)) = [[]]
   \<and> Request_audio 1 0 \<notin> set (trace (run empty_script_run [Audio_settled 1 (Inr ''blob:x'')]))
   \<and> count_list (trace (run empty_script_run [Image_joined 1 ''uuid-2'' 1800])) (Commit 1) = 1"
proof -
  have c: "initController initialState = run (initController initialState) []" by simp
  have g: "(1::nat) = generationIdRef (initController initialState) + 1"
    by (simp add: initController_def)
  have l: "lines (demo_script 0) = []" by (simp add: demo_script_def)
  have mid: "\<forall>e \<in> set [Image_settled 1 (Inr ''data:cover'')]. mid_event 1 e" by simp
  have rs: "audio_results 1 [Image_settled 1 (Inr ''data:cover'')] = []" by simp
  have img: "True \<and> \<not> truthy None
             \<longrightarrow> (\<exists>r. Image_settled 1 r \<in> set [Image_settled 1 (Inr ''data:cover'')])"
    by simp
  have lib: "library (state (initController initialState)) = []"
    by (simp add: initController_def)
  note fin = empty_script_commits_without_audio [OF c g l mid rs img empty_script_run_def]
  from fin have "Request_audio 1 0
                   \<notin> set (trace (run empty_script_run [Audio_settled 1 (Inr ''blob:x'')]))"
    and "count_list (trace (run empty_script_run [Image_joined 1 ''uuid-2'' 1800])) (Commit 1) = 1"
    by blast+
  with fin l lib show ?thesis by (auto simp del: run_Cons)
qed

section \<open>Properties of the topic registry\<close>

lemma generateCoverImage_resolves: "\<exists>img. generateCoverImage response = Inr img"
  by (simp add: generateCoverImage_def split: sum.split list.split)

text \<open>
  Claim C8, amended. \<open>handleAddTopic\<close> appends the topic with \<open>isLoading = true\<close>, no feed
  and no image. \<open>generateCoverImage\<close> never rejects. When the two tasks have settled, the
  registry keeps its topics in place, and a topic with the new identifier is updated as
  follows: if feed discovery and validation resolved, the feeds are set to the valid ones
  (possibly none), the image to what \<open>generateCoverImage\<close> returned (the empty string when
  none was produced) and \<open>isLoading\<close> to false; if they rejected, only \<open>isLoading\<close> is set to
  false, whatever the image task returned. Every other topic is left as it is.
\<close>

theorem addTopic_enrichment:
  "(\<exists>t0. topics (handleAddTopic_insert newTopicId name description color' prev)
            = topics prev @ [t0]
         \<and> topic_id t0 = newTopicId \<and> isCustom t0 \<and> isLoading t0 = Some True
         \<and> rssUrls t0 = [] \<and> customImage t0 = None)
   \<and> (\<exists>img. generateCoverImage response = Inr img)
   \<and> length (topics (handleAddTopic_settled newTopicId rss (generateCoverImage response) s1))
       = length (topics s1)
   \<and> (\<forall>k < length (topics s1).
         topics (handleAddTopic_settled newTopicId rss (generateCoverImage response) s1) ! k
         = (if topic_id (topics s1 ! k) = newTopicId
            then (case rss of
                    Inr validUrls \<Rightarrow>
                      (topics s1 ! k)\<lparr>rssUrls := validUrls,
                        customImage := Some (projr (generateCoverImage response)),
                        isLoading := Some False\<rparr>
                  | Inl e \<Rightarrow> (topics s1 ! k)\<lparr>isLoading := Some False\<rparr>)
            else topics s1 ! k))"
proof -
  obtain img where img: "generateCoverImage response = Inr img"
    using generateCoverImage_resolves by blast
  show ?thesis
    unfolding img
    by (cases rss) (simp_all add: handleAddTopic_insert_def handleAddTopic_settled_def Let_def)
qed

theorem addTopic_enrichment_witness:
  "length (topics chess_inserted) = 7
   \<and> topic_id (topics chess_inserted ! 6) = ''t1''
   \<and> isLoading (topics chess_inserted ! 6) = Some True
   \<and> topics (handleAddTopic_settled ''t1'' (Inr [''https://chess.example/feed''])
               (generateCoverImage (Inr [None, Some ''QUJD''])) chess_inserted) ! 6
       = (topics chess_inserted ! 6)\<lparr>rssUrls := [''https://chess.example/feed''],
            customImage := Some ''data:image/png;base64,QUJD'', isLoading := Some False\<rparr>
   \<and> topics (handleAddTopic_settled ''t1'' (Inr []) (generateCoverImage (Inl NonError))
               chess_inserted) ! 6
       = (topics chess_inserted ! 6)\<lparr>rssUrls := [], customImage := Some [],
            isLoading := Some False\<rparr>"
proof -
  have len: "length (topics chess_inserted) = 7" "(6::nat) < length (topics chess_inserted)"
    "topic_id (topics chess_inserted ! 6) = ''t1''"
    "isLoading (topics chess_inserted ! 6) = Some True"
    by (simp_all add: chess_inserted_def handleAddTopic_insert_def initialState_def
        DEFAULT_TOPICS_def)
  have g1: "generateCoverImage (Inr [None, Some ''QUJD'']) = Inr ''data:image/png;base64,QUJD''"
    and g2: "generateCoverImage (Inl NonError) = Inr []"
    by (simp_all add: generateCoverImage_def List.map_filter_simps)
  from addTopic_enrichment [of "''t1''" "''Chess''" "''chess news''" None initialState
         "Inr [None, Some ''QUJD'']" "Inr [''https://chess.example/feed'']" chess_inserted]
       addTopic_enrichment [of "''t1''" "''Chess''" "''chess news''" None initialState
         "Inl NonError" "Inr []" chess_inserted]
       len
  show ?thesis by (simp add: g1 g2)
qed

text \<open>
  The claim as stated (the image is set if one was produced) fails when feed discovery
  rejects: the image task produced an image, and the topic is left without it.
\<close>

theorem addTopic_image_dropped_counterexample:
  "rssPromise (Inr None) (\<lambda>t. None) (take 3) = Inl (Error ''Failed to discover RSS feeds'')
   \<and> generateCoverImage (Inr [None, Some ''QUJD'']) = Inr ''data:image/png;base64,QUJD''
   \<and> customImage (topics (handleAddTopic_settled ''t1''
                           (rssPromise (Inr None) (\<lambda>t. None) (take 3))
                           (generateCoverImage (Inr [None, Some ''QUJD''])) chess_inserted) ! 6)
       = None
   \<and> rssUrls (topics (handleAddTopic_settled ''t1''
                           (rssPromise (Inr None) (\<lambda>t. None) (take 3))
                           (generateCoverImage (Inr [None, Some ''QUJD''])) chess_inserted) ! 6)
       = []
   \<and> isLoading (topics (handleAddTopic_settled ''t1''
                           (rssPromise (Inr None) (\<lambda>t. None) (take 3))
                           (generateCoverImage (Inr [None, Some ''QUJD''])) chess_inserted) ! 6)
       = Some False"
  by (simp add: rssPromise_def discoverRssFeeds_def generateCoverImage_def
      List.map_filter_simps chess_inserted_def handleAddTopic_insert_def
      handleAddTopic_settled_def initialState_def DEFAULT_TOPICS_def)

end
